theory Spec2Isabelle
  imports Main "HOL-Library.Word"
begin

section \<open>CloudDrop: the content-addressed file store\<close>

text \<open>
  A shallow embedding of \<^verbatim>\<open>InternetFileService\<close> (upload, download, delete and
  delete-all over a blob directory, a counting bloom filter and Redis) and of the
  \<^verbatim>\<open>RedisClient\<close> wrapper it calls. Every method takes the state of the world and
  returns the new one; a thrown JavaScript error is the left summand of the result.
  A method is given as the next request finds the world: a call to Redis that the source
  does not await has taken effect by then, in the order of the calls, as it has once the
  event loop has turned with the client open. The upload is given a second time with the
  queue of the client made explicit, for what has happened, and what has not, between such
  a call and that turn.
\<close>

subsection \<open>Values and errors\<close>

type_synonym bytes = "8 word list"

datatype jserror = JsError (errName: string) (errMessage: string)

definition errorToString :: "jserror \<Rightarrow> string" where
  "errorToString e = errName e @ '': '' @ errMessage e"

text \<open>\<^verbatim>\<open>new Error(err)\<close>: the message of the new error is \<^verbatim>\<open>String(err)\<close>.\<close>

definition wrapError :: "jserror \<Rightarrow> jserror" where
  "wrapError err = JsError ''Error'' (errorToString err)"

datatype jsval =
    JUndefined
  | JString string
  | JNull
  | JStream bytes
  | JObject "(string \<times> jsval) list"

text \<open>A value read from Redis is a string or \<^verbatim>\<open>null\<close>.\<close>

definition jsOfReply :: "string option \<Rightarrow> jsval" where
  "jsOfReply r = (case r of None \<Rightarrow> JNull | Some v \<Rightarrow> JString v)"

text \<open>\<^verbatim>\<open>ToString\<close> of such a value, as \<^verbatim>\<open>startsWith\<close>, \<^verbatim>\<open>includes\<close> and
  \<^verbatim>\<open>encodeURIComponent\<close> apply it to their argument.\<close>

definition toStr :: "string option \<Rightarrow> string" where
  "toStr r = (case r of None \<Rightarrow> ''null'' | Some v \<Rightarrow> v)"

text \<open>\<^verbatim>\<open>!x\<close> on a query parameter: absent or the empty string.\<close>

definition falsy :: "string option \<Rightarrow> bool" where
  "falsy x = (case x of None \<Rightarrow> True | Some v \<Rightarrow> v = [])"

fun startsWith :: "string \<Rightarrow> string \<Rightarrow> bool" where
  "startsWith file [] = True"
| "startsWith [] (c # cs) = False"
| "startsWith (f # fs) (c # cs) = (f = c \<and> startsWith fs cs)"

fun includesStr :: "string \<Rightarrow> string \<Rightarrow> bool" where
  "includesStr [] s = (s = [])"
| "includesStr (f # fs) s = (startsWith (f # fs) s \<or> includesStr fs s)"

subsection \<open>The Redis server behind the client\<close>

text \<open>
  The keyspace is a table of slots; a slot holds a key, its value and its expiry time in
  milliseconds, if it has one. A key past its expiry time is absent to every command. A new
  key takes a new slot at the end and a deleted key leaves its slot empty, so that a cursor
  (the index of the next slot to visit) stays meaningful while keys are deleted during a
  scan.
\<close>

type_synonym redisEntry = "string \<times> string \<times> int option"
type_synonym redisDb = "redisEntry option list"

definition live :: "int \<Rightarrow> int option \<Rightarrow> bool" where
  "live now e = (case e of None \<Rightarrow> True | Some t \<Rightarrow> now < t)"

definition keyed :: "string \<Rightarrow> redisEntry option \<Rightarrow> bool" where
  "keyed k sl = (case sl of None \<Rightarrow> False | Some (k', v, e) \<Rightarrow> k' = k)"

definition holds :: "int \<Rightarrow> string \<Rightarrow> redisEntry option \<Rightarrow> bool" where
  "holds now k sl = (case sl of None \<Rightarrow> False | Some (k', v, e) \<Rightarrow> k' = k \<and> live now e)"

definition db_get :: "int \<Rightarrow> redisDb \<Rightarrow> string \<Rightarrow> string option" where
  "db_get now db k =
     (case find (holds now k) db of Some (Some (k', v, e)) \<Rightarrow> Some v | _ \<Rightarrow> None)"

definition db_ttl :: "int \<Rightarrow> redisDb \<Rightarrow> string \<Rightarrow> int option" where
  "db_ttl now db k =
     (case find (holds now k) db of Some (Some (k', v, e)) \<Rightarrow> e | _ \<Rightarrow> None)"

definition db_set :: "redisDb \<Rightarrow> string \<Rightarrow> string \<Rightarrow> redisDb" where
  "db_set db k v =
     (if list_ex (keyed k) db
      then map (\<lambda>sl. if keyed k sl then Some (k, v, None) else sl) db
      else db @ [Some (k, v, None)])"

definition db_del :: "redisDb \<Rightarrow> string list \<Rightarrow> redisDb" where
  "db_del db ks =
     map (\<lambda>sl. case sl of None \<Rightarrow> None
                | Some (k, v, e) \<Rightarrow> if k \<in> set ks then None else Some (k, v, e)) db"

text \<open>\<^verbatim>\<open>EXPIRE\<close> and \<^verbatim>\<open>EXPIREAT\<close> both set an absolute expiry time; a time that is
  not in the future deletes the key at once.\<close>

definition db_pexpireAt :: "int \<Rightarrow> redisDb \<Rightarrow> string \<Rightarrow> int \<Rightarrow> redisDb" where
  "db_pexpireAt now db k tm =
     (if tm \<le> now then db_del db [k]
      else map (\<lambda>sl. case sl of None \<Rightarrow> None
                      | Some (k', v, e) \<Rightarrow>
                          if k' = k \<and> live now e then Some (k', v, Some tm)
                          else Some (k', v, e)) db)"

definition db_expire :: "int \<Rightarrow> redisDb \<Rightarrow> string \<Rightarrow> int \<Rightarrow> redisDb" where
  "db_expire now db k seconds = db_pexpireAt now db k (now + seconds * 1000)"

definition db_expireAt :: "int \<Rightarrow> redisDb \<Rightarrow> string \<Rightarrow> int \<Rightarrow> redisDb" where
  "db_expireAt now db k timestamp = db_pexpireAt now db k (timestamp * 1000)"

text \<open>Glob-style matching of a key; \<^verbatim>\<open>*\<close> is the only wildcard the patterns of the
  source use.\<close>

fun glob :: "string \<Rightarrow> string \<Rightarrow> bool" where
  "glob [] [] = True"
| "glob [] (c # cs) = False"
| "glob (p # ps) [] = (p = CHR ''*'' \<and> glob ps [])"
| "glob (p # ps) (c # cs) =
     (if p = CHR ''*'' then glob ps (c # cs) \<or> glob (p # ps) cs
      else p = c \<and> glob ps cs)"

text \<open>\<^verbatim>\<open>SCAN cursor MATCH pattern COUNT count\<close>: the live keys among the next
  \<open>count\<close> slots that match, and the next cursor, zero when the table is exhausted.\<close>

definition db_scan :: "int \<Rightarrow> redisDb \<Rightarrow> nat \<Rightarrow> string \<Rightarrow> nat \<Rightarrow> nat \<times> string list" where
  "db_scan now db cursor pattern count =
     (let batch = take count (drop cursor db);
          keys = List.map_filter
                   (\<lambda>sl. case sl of None \<Rightarrow> None
                          | Some (k, v, e) \<Rightarrow>
                              if live now e \<and> glob pattern k then Some k else None) batch
      in (if cursor + count < length db then cursor + count else 0, keys))"

text \<open>
  \<^verbatim>\<open>client.scan(cursor, options)\<close> of the Redis client takes the pattern and the batch size
  from the properties \<^verbatim>\<open>MATCH\<close> and \<^verbatim>\<open>COUNT\<close> of its second argument, an object, and
  sends only what it finds there; it does not look at further arguments. Where the second
  argument is a string, which has neither property, the command sent is \<^verbatim>\<open>SCAN cursor\<close>
  alone: the server then matches every key and takes its default count of 10.
\<close>

datatype scanArgument =
    Positional string
  | Options (optMatch: "string option") (optCount: "nat option")

definition client_scan :: "int \<Rightarrow> redisDb \<Rightarrow> nat \<Rightarrow> scanArgument list \<Rightarrow> nat \<times> string list" where
  "client_scan now db cursor args =
     (case args of
        Options m c # rest \<Rightarrow>
          db_scan now db cursor (case m of None \<Rightarrow> ''*'' | Some p \<Rightarrow> p)
            (case c of None \<Rightarrow> 10 | Some n \<Rightarrow> n)
      | _ \<Rightarrow> db_scan now db cursor ''*'' 10)"

subsection \<open>The counting bloom filter and its snapshot\<close>

text \<open>
  The environment holds what the service takes from libraries and from configuration:
  the SHA-256 digest in hexadecimal, \<^verbatim>\<open>decodeURIComponent\<close> (\<open>None\<close> where it throws a
  \<^verbatim>\<open>URIError\<close>), \<^verbatim>\<open>encodeURIComponent\<close>, \<^verbatim>\<open>path.extname\<close>, the positions the
  filter's hash functions give an element in a filter of a given size and number of
  hashes, the size, number of hashes and counter bound the configured element count and
  error rate lead to, the upload directory, the bucket and region of the remote archive,
  and the offset of local time from UTC in minutes (east positive), taken as fixed.
\<close>

record env =
  sha256hex :: "bytes \<Rightarrow> string"
  decodeURIComponent :: "string \<Rightarrow> string option"
  encodeURIComponent :: "string \<Rightarrow> string"
  extname :: "string \<Rightarrow> string"
  getIndexes :: "bytes \<Rightarrow> nat \<Rightarrow> nat \<Rightarrow> nat list"
  filterSize :: nat
  filterHashes :: nat
  filterMaxCount :: nat
  uploadPath :: string
  awsBucket :: string
  awsRegion :: string
  tzOffset :: int

text \<open>Modelled from the spec: the bloom-filters package and the serialisation of the
  filter are not in the sources. The index is "an array of saturating counters over k
  hash functions", "sized at construction"; \<open>add\<close> "increments counters for all k hash
  positions of the content" and the "counters saturate"; \<open>remove\<close> "decrements counters"
  and is guarded "against underflow"; \<open>has\<close> holds when every position of the content
  has a positive counter.\<close>

record cbf =
  cbfSize :: nat
  cbfHashes :: nat
  cbfMaxCount :: nat
  cbfCounters :: "nat list"
  cbfLength :: nat

definition cbf_create :: "env \<Rightarrow> cbf" where
  "cbf_create env =
     \<lparr>cbfSize = filterSize env, cbfHashes = filterHashes env,
      cbfMaxCount = filterMaxCount env,
      cbfCounters = replicate (filterSize env) 0, cbfLength = 0\<rparr>"

definition cbf_indexes :: "env \<Rightarrow> cbf \<Rightarrow> bytes \<Rightarrow> nat list" where
  "cbf_indexes env f element = getIndexes env element (cbfSize f) (cbfHashes f)"

definition increment :: "nat \<Rightarrow> nat list \<Rightarrow> nat \<Rightarrow> nat list" where
  "increment bound cs i = (if i < length cs then cs[i := min (cs ! i + 1) bound] else cs)"

definition decrement :: "nat list \<Rightarrow> nat \<Rightarrow> nat list" where
  "decrement cs i = (if i < length cs \<and> 0 < cs ! i then cs[i := cs ! i - 1] else cs)"

definition cbf_add :: "env \<Rightarrow> cbf \<Rightarrow> bytes \<Rightarrow> cbf" where
  "cbf_add env f element =
     f\<lparr>cbfCounters := foldl (increment (cbfMaxCount f)) (cbfCounters f) (cbf_indexes env f element),
       cbfLength := cbfLength f + 1\<rparr>"

definition cbf_remove :: "env \<Rightarrow> cbf \<Rightarrow> bytes \<Rightarrow> cbf" where
  "cbf_remove env f element =
     f\<lparr>cbfCounters := foldl decrement (cbfCounters f) (cbf_indexes env f element),
       cbfLength := cbfLength f - 1\<rparr>"

definition cbf_has :: "env \<Rightarrow> cbf \<Rightarrow> bytes \<Rightarrow> bool" where
  "cbf_has env f element =
     list_all (\<lambda>i. i < length (cbfCounters f) \<and> 0 < cbfCounters f ! i) (cbf_indexes env f element)"

text \<open>Modelled from the spec: the snapshot is a "serialized structure with fields for
  bit/counter array, element count, and error-rate parameters".\<close>

record snapshot =
  snapSize :: nat
  snapHashes :: nat
  snapMaxCount :: nat
  snapFilter :: "(bool \<times> nat) list"
  snapLength :: nat

definition serialize :: "cbf \<Rightarrow> snapshot" where
  "serialize f =
     \<lparr>snapSize = cbfSize f, snapHashes = cbfHashes f, snapMaxCount = cbfMaxCount f,
      snapFilter = map (\<lambda>c. (0 < c, c)) (cbfCounters f), snapLength = cbfLength f\<rparr>"

definition deserialize :: "snapshot \<Rightarrow> cbf" where
  "deserialize sn =
     \<lparr>cbfSize = snapSize sn, cbfHashes = snapHashes sn, cbfMaxCount = snapMaxCount sn,
      cbfCounters = map snd (snapFilter sn), cbfLength = snapLength sn\<rparr>"

subsection \<open>The state of the world\<close>

text \<open>
  The calls the service makes to its collaborators are recorded, in order, in a ghost
  log; reads of Redis and of the file system are not.
\<close>

datatype event =
    RedisSet string string
  | RedisSetExpire string int
  | RedisDeleteByPattern string
  | RedisDeleteFileInfoByFileId string
  | RedisDeleteFileInfoWithSameHash "string option"
  | RedisSaveBloomFilter
  | FilterHas bytes
  | FilterAdd bytes
  | FilterRemove bytes
  | FsWriteFile string
  | FsUnlink string
  | S3Upload string

record state =
  clock :: int
  redisDb :: redisDb
  savedFilter :: "snapshot option"
  uploads :: "(string \<times> bytes) list"
  diskError :: "jserror option"
  bloomFilter :: cbf
  bucketObjects :: "(string \<times> bytes \<times> string) list"
  s3Error :: "jserror option"
  trace :: "event list"

definition logEvent :: "event \<Rightarrow> state \<Rightarrow> state" where
  "logEvent ev s = s\<lparr>trace := trace s @ [ev]\<rparr>"

subsection \<open>redisClient.js\<close>

definition redis_set :: "string \<Rightarrow> string \<Rightarrow> state \<Rightarrow> state" where
  "redis_set key val s = logEvent (RedisSet key val) (s\<lparr>redisDb := db_set (redisDb s) key val\<rparr>)"

text \<open>\<^verbatim>\<open>new Date().setHours(3, 0, 0, 0)\<close>: the time stamp, in milliseconds, of 03:00:00.000
  local time on the local calendar day of \<open>now\<close>.\<close>

definition msPerDay :: int where
  "msPerDay = 86400000"

definition setHours3 :: "int \<Rightarrow> int \<Rightarrow> int" where
  "setHours3 tz now =
     (let local = now + tz * 60000 in local - local mod msPerDay + 3 * 3600000 - tz * 60000)"

text \<open>\<^verbatim>\<open>parseInt(x / 1000)\<close> on a whole number of milliseconds: the quotient, rounded
  towards zero.\<close>

definition parseIntDiv1000 :: "int \<Rightarrow> int" where
  "parseIntDiv1000 x = (if 0 \<le> x then x div 1000 else - ((- x) div 1000))"

definition setExpire :: "env \<Rightarrow> string \<Rightarrow> int \<Rightarrow> state \<Rightarrow> state" where
  "setExpire env key second s =
     logEvent (RedisSetExpire key second)
       (if second = 0
        then (let todayEnd = setHours3 (tzOffset env) (clock s)
              in s\<lparr>redisDb := db_expireAt (clock s) (redisDb s) key (parseIntDiv1000 todayEnd)\<rparr>)
        else s\<lparr>redisDb := db_expire (clock s) (redisDb s) key second\<rparr>)"

definition redis_get :: "state \<Rightarrow> string \<Rightarrow> string option" where
  "redis_get s key = db_get (clock s) (redisDb s) key"

text \<open>\<^verbatim>\<open>deleteByPattern\<close> hands \<^verbatim>\<open>'MATCH'\<close>, the pattern, \<^verbatim>\<open>'COUNT'\<close> and \<^verbatim>\<open>'100'\<close> to
  \<^verbatim>\<open>client.scan\<close> as four further arguments after the cursor.\<close>

function deleteByPattern_loop :: "int \<Rightarrow> string \<Rightarrow> nat \<Rightarrow> redisDb \<Rightarrow> redisDb" where
  "deleteByPattern_loop now pattern cursor db =
     (let reply = client_scan now db cursor
                    [Positional ''MATCH'', Positional pattern, Positional ''COUNT'', Positional ''100''];
          cursor' = fst reply;
          keys = snd reply;
          db' = (if length keys > 0 then db_del db keys else db)
      in if cursor' \<noteq> 0 then deleteByPattern_loop now pattern cursor' db' else db')"
  by pat_completeness auto
termination
  by (relation "measure (\<lambda>(now, pattern, cursor, db). length db - cursor)")
     (auto simp: client_scan_def db_scan_def db_del_def Let_def split: if_splits)

declare deleteByPattern_loop.simps [simp del]

definition deleteByPattern :: "string \<Rightarrow> state \<Rightarrow> state" where
  "deleteByPattern pattern s =
     logEvent (RedisDeleteByPattern pattern)
       (s\<lparr>redisDb := deleteByPattern_loop (clock s) pattern 0 (redisDb s)\<rparr>)"

text \<open>Modelled from the spec: \<^verbatim>\<open>saveBloomFilter\<close>, \<^verbatim>\<open>loadBloomFilter\<close>,
  \<^verbatim>\<open>deleteFileInfoByFileId\<close> and \<^verbatim>\<open>deleteFileInfoWithSameHash\<close> are called by the
  service and missing from the client's source. "\<open>load() -> SerializedIndexState | absent\<close>,
  \<open>save(index)\<close>"; "\<open>deleteByFileId(fileId)\<close> removes both entries";
  "\<open>deleteAllWithHash(hash)\<close> performs a full keyspace scan (cursor-based, bounded batch
  size) to find and remove every record sharing a content hash", "resuming from the returned
  cursor until it reports completion (cursor value zero)". The key under which the snapshot
  is kept is not given, so the snapshot has a field of the state to itself.\<close>

definition saveBloomFilter :: "cbf \<Rightarrow> state \<Rightarrow> state" where
  "saveBloomFilter bf s = logEvent RedisSaveBloomFilter (s\<lparr>savedFilter := Some (serialize bf)\<rparr>)"

definition loadBloomFilter :: "state \<Rightarrow> snapshot option" where
  "loadBloomFilter s = savedFilter s"

definition hashKey :: "string \<Rightarrow> string" where
  "hashKey fileId = ''file:'' @ fileId @ '':hash''"

definition filenameKey :: "string \<Rightarrow> string" where
  "filenameKey fileId = ''file:'' @ fileId @ '':filename''"

definition deleteFileInfoByFileId :: "string \<Rightarrow> state \<Rightarrow> state" where
  "deleteFileInfoByFileId fileId s =
     logEvent (RedisDeleteFileInfoByFileId fileId)
       (s\<lparr>redisDb := db_del (redisDb s) [hashKey fileId, filenameKey fileId]\<rparr>)"

text \<open>The file identifier inside a key \<^verbatim>\<open>file:{fileId}:hash\<close>.\<close>

definition fileIdOfHashKey :: "string \<Rightarrow> string" where
  "fileIdOfHashKey key = take (length key - 10) (drop 5 key)"

function deleteFileInfoWithSameHash_loop :: "int \<Rightarrow> string option \<Rightarrow> nat \<Rightarrow> redisDb \<Rightarrow> redisDb" where
  "deleteFileInfoWithSameHash_loop now fileHash cursor db =
     (let reply = db_scan now db cursor ''file:*:hash'' 100;
          cursor' = fst reply;
          keys = filter (\<lambda>key. db_get now db key = fileHash) (snd reply);
          db' = db_del db (concat (map (\<lambda>key. [key, filenameKey (fileIdOfHashKey key)]) keys))
      in if cursor' \<noteq> 0 then deleteFileInfoWithSameHash_loop now fileHash cursor' db' else db')"
  by pat_completeness auto
termination
  by (relation "measure (\<lambda>(now, fileHash, cursor, db). length db - cursor)")
     (auto simp: db_scan_def db_del_def Let_def split: if_splits)

declare deleteFileInfoWithSameHash_loop.simps [simp del]

definition deleteFileInfoWithSameHash :: "string option \<Rightarrow> state \<Rightarrow> state" where
  "deleteFileInfoWithSameHash fileHash s =
     logEvent (RedisDeleteFileInfoWithSameHash fileHash)
       (s\<lparr>redisDb := deleteFileInfoWithSameHash_loop (clock s) fileHash 0 (redisDb s)\<rparr>)"

subsection \<open>The upload directory and the bloom filter of the service\<close>

text \<open>
  The upload directory is the list of its entries, in the order \<^verbatim>\<open>readdir\<close> lists them;
  \<^verbatim>\<open>path.join(this.uploadPath, name)\<close> is the entry \<open>name\<close>. A write fails with the
  error the disk is in, if it is in one.
\<close>

definition pathJoin :: "string \<Rightarrow> string \<Rightarrow> string" where
  "pathJoin dir name = dir @ ''/'' @ name"

definition fs_readdir :: "state \<Rightarrow> string list" where
  "fs_readdir s = map fst (uploads s)"

definition fs_readFile :: "state \<Rightarrow> string \<Rightarrow> bytes option" where
  "fs_readFile s name = map_of (uploads s) name"

definition putEntry :: "string \<Rightarrow> bytes \<Rightarrow> (string \<times> bytes) list \<Rightarrow> (string \<times> bytes) list" where
  "putEntry name content entries =
     (if name \<in> set (map fst entries)
      then map (\<lambda>(n, c). if n = name then (n, content) else (n, c)) entries
      else entries @ [(name, content)])"

definition fs_writeFile :: "string \<Rightarrow> bytes \<Rightarrow> state \<Rightarrow> jserror option \<times> state" where
  "fs_writeFile name content s =
     (let s' = logEvent (FsWriteFile name) s
      in case diskError s of
           Some err \<Rightarrow> (Some err, s')
         | None \<Rightarrow> (None, s'\<lparr>uploads := putEntry name content (uploads s)\<rparr>))"

definition fs_unlink :: "string \<Rightarrow> state \<Rightarrow> state" where
  "fs_unlink name s =
     logEvent (FsUnlink name) (s\<lparr>uploads := filter (\<lambda>(n, c). n \<noteq> name) (uploads s)\<rparr>)"

definition filter_has :: "env \<Rightarrow> bytes \<Rightarrow> state \<Rightarrow> bool \<times> state" where
  "filter_has env element s = (cbf_has env (bloomFilter s) element, logEvent (FilterHas element) s)"

definition filter_add :: "env \<Rightarrow> bytes \<Rightarrow> state \<Rightarrow> state" where
  "filter_add env element s =
     logEvent (FilterAdd element) (s\<lparr>bloomFilter := cbf_add env (bloomFilter s) element\<rparr>)"

definition filter_remove :: "env \<Rightarrow> bytes \<Rightarrow> state \<Rightarrow> state" where
  "filter_remove env element s =
     logEvent (FilterRemove element) (s\<lparr>bloomFilter := cbf_remove env (bloomFilter s) element\<rparr>)"

subsection \<open>S3Service\<close>

definition generateS3Key :: "string \<Rightarrow> string \<Rightarrow> string \<Rightarrow> jserror + string" where
  "generateS3Key type ident filename =
     (if type = ''user'' then Inr (''user/'' @ ident @ ''/'' @ filename)
      else if type = ''room'' then Inr (''room/'' @ ident @ ''/'' @ filename)
      else Inl (JsError ''Error'' (''[S3Service] Invalid type: '' @ type)))"

text \<open>\<^verbatim>\<open>S3Service.uploadFile(file, filename, type, id)\<close>, with \<open>tempName\<close> the entry of
  the upload directory that \<^verbatim>\<open>file.tempFilePath\<close> addresses and \<open>name\<close> the original name
  for the metadata; the result is the location. Sending fails with the error the archive
  is in, if it is in one.\<close>

definition s3_uploadFile ::
  "env \<Rightarrow> string \<Rightarrow> string \<Rightarrow> string \<Rightarrow> string \<Rightarrow> string \<Rightarrow> state \<Rightarrow> (jserror + string) \<times> state" where
  "s3_uploadFile env tempName name filename type ident s =
     (case generateS3Key type ident filename of
        Inl err \<Rightarrow> (Inl err, s)
      | Inr key \<Rightarrow>
          (case fs_readFile s tempName of
             None \<Rightarrow>
               (Inl (JsError ''Error''
                  (''[S3Service] File not found: '' @ pathJoin (uploadPath env) tempName)), s)
           | Some body \<Rightarrow>
               (case s3Error s of
                  Some err \<Rightarrow> (Inl err, s)
                | None \<Rightarrow>
                    (Inr (''https://'' @ awsBucket env @ ''.s3.'' @ awsRegion env
                          @ ''.amazonaws.com/'' @ key),
                     logEvent (S3Upload key)
                       (s\<lparr>bucketObjects :=
                            (key, body, name) # filter (\<lambda>(k, b, n). k \<noteq> key) (bucketObjects s)\<rparr>)))))"

subsection \<open>InternetFileService\<close>

definition loadFilter :: "env \<Rightarrow> state \<Rightarrow> cbf \<times> state" where
  "loadFilter env s =
     (case loadBloomFilter s of
        None \<Rightarrow> (let bf = cbf_create env in (bf, saveBloomFilter bf s))
      | Some parseData \<Rightarrow> (deserialize parseData, s))"

definition initFilter :: "env \<Rightarrow> state \<Rightarrow> state" where
  "initFilter env s = (let (bf, s') = loadFilter env s in s'\<lparr>bloomFilter := bf\<rparr>)"

definition generateUniqueFilename :: "env \<Rightarrow> string \<Rightarrow> string \<Rightarrow> string" where
  "generateUniqueFilename env filename fileHash = fileHash @ extname env filename"

definition calculateFileHash :: "env \<Rightarrow> bytes \<Rightarrow> string" where
  "calculateFileHash env file = sha256hex env file"

definition saveFileInfo :: "env \<Rightarrow> string \<Rightarrow> string \<Rightarrow> string \<Rightarrow> state \<Rightarrow> state" where
  "saveFileInfo env fileId fileHash originalFilename s =
     (let s1 = redis_set (hashKey fileId) fileHash s;
          s2 = setExpire env (hashKey fileId) (3600 * 24 * 30) s1;
          s3 = redis_set (filenameKey fileId) originalFilename s2;
          s4 = setExpire env (filenameKey fileId) (3600 * 24 * 30) s3
      in s4)"

text \<open>\<^verbatim>\<open>uploadFile\<close>: \<open>uuid\<close> is the value \<^verbatim>\<open>randomUUID()\<close> returns in this call, and
  \<open>file\<close> is \<^verbatim>\<open>req.file\<close>, with its \<^verbatim>\<open>originalname\<close> and its \<^verbatim>\<open>buffer\<close>.\<close>

definition uploadFile ::
  "env \<Rightarrow> string \<Rightarrow> (string \<times> bytes) option \<Rightarrow> state \<Rightarrow> (jserror + jsval) \<times> state" where
  "uploadFile env uuid file s =
     (case file of
        None \<Rightarrow> (Inl (wrapError (JsError ''Error'' ''No file was uploaded.'')), s)
      | Some (originalname, fileBuffer) \<Rightarrow>
          (let fileId = uuid in
           case decodeURIComponent env originalname of
             None \<Rightarrow> (Inl (wrapError (JsError ''URIError'' ''URI malformed'')), s)
           | Some originalFilename \<Rightarrow>
               (let fileHash = calculateFileHash env fileBuffer;
                    s1 = saveFileInfo env fileId fileHash originalFilename s;
                    (exist, s2) = filter_has env fileBuffer s1;
                    fullFilename = generateUniqueFilename env originalFilename fileHash;
                    result = JObject [(''fileId'', JString fileId), (''fileName'', JString originalFilename)]
                in if exist then (Inr result, s2)
                   else (case fs_writeFile fullFilename fileBuffer s2 of
                           (Some err, s3) \<Rightarrow> (Inl (wrapError err), s3)
                         | (None, s3) \<Rightarrow>
                             (let s4 = filter_add env fileBuffer s3;
                                  s5 = saveBloomFilter (bloomFilter s4) s4
                              in (Inr result, s5))))))"

text \<open>\<^verbatim>\<open>_localDownload(filePath, fileId)\<close>, with \<open>name\<close> the entry that \<open>filePath\<close>
  addresses; the stream is the content it will deliver.\<close>

definition localDownload :: "string \<Rightarrow> string \<Rightarrow> string \<Rightarrow> state \<Rightarrow> (jserror + jsval) \<times> state" where
  "localDownload filePath name fileId s =
     (case fs_readFile s name of
        None \<Rightarrow>
          (Inl (JsError ''Error'' (''ENOENT: no such file or directory, open '' @ filePath)), s)
      | Some content \<Rightarrow>
          (let originalFilename = redis_get s (filenameKey fileId)
           in (Inr (JObject [(''stream'', JStream content), (''filename'', jsOfReply originalFilename)]), s)))"

definition stagingAreaDownload ::
  "env \<Rightarrow> string \<Rightarrow> string \<Rightarrow> string \<Rightarrow> string \<Rightarrow> state \<Rightarrow> (jserror + jsval) \<times> state" where
  "stagingAreaDownload env type fileName fileId ident s =
     (let originalFilename = redis_get s (filenameKey fileId);
          safeFilename = encodeURIComponent env (toStr originalFilename)
      in case s3_uploadFile env fileName safeFilename fileName type ident s of
           (Inl err, s') \<Rightarrow> (Inl err, s')
         | (Inr location, s') \<Rightarrow>
             (Inr (JObject [(''fileId'', JString fileId), (''filename'', jsOfReply originalFilename),
                            (''location'', JString location)]), s'))"

definition download ::
  "env \<Rightarrow> string \<Rightarrow> string \<Rightarrow> string option \<Rightarrow> string option \<Rightarrow> state \<Rightarrow> (jserror + jsval) \<times> state" where
  "download env way fileId type ident s =
     (let fileHash = redis_get s (hashKey fileId);
          files = fs_readdir s;
          matchedFile = find (\<lambda>file. startsWith file (toStr fileHash)) files
      in case matchedFile of
           None \<Rightarrow> (Inl (JsError ''Error'' ''File not found''), s)
         | Some matched \<Rightarrow>
             (let filePath = pathJoin (uploadPath env) matched
              in if way = ''local'' then localDownload filePath matched fileId s
                 else if way = ''staging-area'' then
                   (if falsy type \<or> falsy ident
                    then (Inl (JsError ''Error''
                            ''Type and id query parameters are required for staging-area download.''), s)
                    else stagingAreaDownload env (toStr type) matched fileId (toStr ident) s)
                 else if way = ''google-cloud'' then (Inr JUndefined, s)
                 else (Inl (JsError ''Error'' ''Invalid download way.''), s)))"

definition deleteFile :: "env \<Rightarrow> string \<Rightarrow> state \<Rightarrow> (jserror + jsval) \<times> state" where
  "deleteFile env fileId s =
     (let files = fs_readdir s;
          fileHash = redis_get s (hashKey fileId);
          matchedFile = find (\<lambda>file. includesStr file (toStr fileHash)) files
      in case matchedFile of
           None \<Rightarrow> (Inl (JsError ''Error'' ''File not found''), s)
         | Some matched \<Rightarrow>
             (let filePath = pathJoin (uploadPath env) matched
              in case fs_readFile s matched of
                   None \<Rightarrow>
                     (Inl (JsError ''Error'' (''ENOENT: no such file or directory, open '' @ filePath)), s)
                 | Some fileBuffer \<Rightarrow>
                     (let s1 = filter_remove env fileBuffer s;
                          s2 = fs_unlink matched s1;
                          s3 = saveBloomFilter (bloomFilter s2) s2;
                          s4 = deleteFileInfoByFileId fileId s3;
                          s5 = deleteFileInfoWithSameHash fileHash s4
                      in (Inr (JObject [(''message'', JString ''File deleted successfully'')]), s5))))"

definition deleteAllFiles :: "env \<Rightarrow> state \<Rightarrow> (jserror + jsval) \<times> state" where
  "deleteAllFiles env s =
     (let files = fs_readdir s;
          s1 = foldl (\<lambda>st file. fs_unlink file st) s files;
          s2 = s1\<lparr>bloomFilter := cbf_create env\<rparr>;
          s3 = saveBloomFilter (bloomFilter s2) s2;
          s4 = deleteByPattern ''file:*:hash'' s3;
          s5 = deleteByPattern ''file:*:filename'' s4
      in (Inr (JObject [(''message'', JString ''All files deleted successfully'')]), s5))"

subsection \<open>The upload as the event loop runs it\<close>

text \<open>
  \<^verbatim>\<open>_saveFileInfo\<close> calls \<^verbatim>\<open>redisClient.set\<close> and \<^verbatim>\<open>redisClient.setExpire\<close> and awaits
  neither, and \<^verbatim>\<open>uploadFile\<close> calls \<^verbatim>\<open>redisClient.connect()\<close> only later, before it saves
  the filter. A wrapper that is called runs at once as far as its own \<^verbatim>\<open>await\<close>: it hands
  its command to the client. An open client puts the command in its queue, and the server
  performs the queued commands, in their order, when the event loop turns; that is at the
  next \<^verbatim>\<open>await\<close> of the caller at the earliest. A closed client rejects the command; the
  wrapper logs the error and rethrows it into a promise that nobody holds, so that neither
  \<^verbatim>\<open>uploadFile\<close> nor its caller learns of it, and the upload goes on.

  \<open>uploadFile_eventLoop\<close> is \<^verbatim>\<open>uploadFile\<close> with the client and its queue made explicit.
  The first \<^verbatim>\<open>await\<close> of the method is that of the blob write, and the branch for content
  the index reports as present has none. Whether the write or the queued commands complete
  first the source does not fix; here the commands do. The log takes a Redis command when
  the server performs it. \<open>uploadFile\<close> above gives the world as the next request finds
  it when the client was open.
\<close>

datatype command = CmdSet string string | CmdExpire string int

record client =
  isOpen :: bool
  commandQueue :: "command list"

definition sendCommand :: "command \<Rightarrow> client \<Rightarrow> client" where
  "sendCommand cmd c = (if isOpen c then c\<lparr>commandQueue := commandQueue c @ [cmd]\<rparr> else c)"

definition connect :: "client \<Rightarrow> client" where
  "connect c = (if isOpen c then c else c\<lparr>isOpen := True\<rparr>)"

fun perform :: "env \<Rightarrow> state \<Rightarrow> command \<Rightarrow> state" where
  "perform env s (CmdSet key val) = redis_set key val s"
| "perform env s (CmdExpire key second) = setExpire env key second s"

definition eventLoopTurn :: "env \<Rightarrow> client \<Rightarrow> state \<Rightarrow> client \<times> state" where
  "eventLoopTurn env c s = (c\<lparr>commandQueue := []\<rparr>, foldl (perform env) s (commandQueue c))"

definition saveFileInfo_unawaited :: "string \<Rightarrow> string \<Rightarrow> string \<Rightarrow> client \<Rightarrow> client" where
  "saveFileInfo_unawaited fileId fileHash originalFilename c =
     (let c1 = sendCommand (CmdSet (hashKey fileId) fileHash) c;
          c2 = sendCommand (CmdExpire (hashKey fileId) (3600 * 24 * 30)) c1;
          c3 = sendCommand (CmdSet (filenameKey fileId) originalFilename) c2;
          c4 = sendCommand (CmdExpire (filenameKey fileId) (3600 * 24 * 30)) c3
      in c4)"

definition uploadFile_eventLoop ::
  "env \<Rightarrow> string \<Rightarrow> (string \<times> bytes) option \<Rightarrow> client \<Rightarrow> state
     \<Rightarrow> (jserror + jsval) \<times> client \<times> state" where
  "uploadFile_eventLoop env uuid file c s =
     (case file of
        None \<Rightarrow> (Inl (wrapError (JsError ''Error'' ''No file was uploaded.'')), c, s)
      | Some (originalname, fileBuffer) \<Rightarrow>
          (let fileId = uuid in
           case decodeURIComponent env originalname of
             None \<Rightarrow> (Inl (wrapError (JsError ''URIError'' ''URI malformed'')), c, s)
           | Some originalFilename \<Rightarrow>
               (let fileHash = calculateFileHash env fileBuffer;
                    c1 = saveFileInfo_unawaited fileId fileHash originalFilename c;
                    (exist, s1) = filter_has env fileBuffer s;
                    fullFilename = generateUniqueFilename env originalFilename fileHash;
                    result = JObject [(''fileId'', JString fileId), (''fileName'', JString originalFilename)]
                in if exist then (Inr result, c1, s1)
                   else (let (c2, s2) = eventLoopTurn env c1 s1
                         in case fs_writeFile fullFilename fileBuffer s2 of
                              (Some err, s3) \<Rightarrow> (Inl (wrapError err), c2, s3)
                            | (None, s3) \<Rightarrow>
                                (let s4 = filter_add env fileBuffer s3;
                                     c3 = connect c2;
                                     s5 = saveBloomFilter (bloomFilter s4) s4
                                 in (Inr result, c3, s5))))))"

section \<open>Notions used in the properties\<close>

text \<open>Property access on a returned object: \<^verbatim>\<open>undefined\<close> for a field it does not have.\<close>

definition jsField :: "jsval \<Rightarrow> string \<Rightarrow> jsval" where
  "jsField v name =
     (case v of JObject props \<Rightarrow> (case map_of props name of Some x \<Rightarrow> x | None \<Rightarrow> JUndefined)
      | _ \<Rightarrow> JUndefined)"


text \<open>The positions of an element lie inside the counter array, and the counters can
  count to one at least.\<close>

definition inRange :: "env \<Rightarrow> cbf \<Rightarrow> bytes \<Rightarrow> bool" where
  "inRange env f element =
     (0 < cbfMaxCount f \<and> list_all (\<lambda>i. i < length (cbfCounters f)) (cbf_indexes env f element))"


text \<open>A name as \<^verbatim>\<open>uploadFile\<close> gives a blob: it begins with the 64 hexadecimal digits
  of a SHA-256 digest.\<close>

definition isHexDigit :: "char \<Rightarrow> bool" where
  "isHexDigit c = (c \<in> set ''0123456789abcdef'')"

definition blobName :: "string \<Rightarrow> bool" where
  "blobName file = (64 \<le> length file \<and> list_all isHexDigit (take 64 file))"

definition s3Location :: "env \<Rightarrow> string \<Rightarrow> string" where
  "s3Location env key = ''https://'' @ awsBucket env @ ''.s3.'' @ awsRegion env @ ''.amazonaws.com/'' @ key"

text \<open>The keys one \<^verbatim>\<open>SCAN\<close> of a batch of 100 returns, and those of them that
  \<^verbatim>\<open>deleteFileInfoWithSameHash\<close> deletes together with their filename keys.\<close>

definition scanKeys :: "int \<Rightarrow> redisDb \<Rightarrow> nat \<Rightarrow> string \<Rightarrow> string list" where
  "scanKeys now db cursor pattern = snd (db_scan now db cursor pattern 100)"

definition sameHashKeys :: "int \<Rightarrow> string option \<Rightarrow> redisDb \<Rightarrow> nat \<Rightarrow> string list" where
  "sameHashKeys now fileHash db c =
     concat (map (\<lambda>key. [key, filenameKey (fileIdOfHashKey key)])
       (filter (\<lambda>key. db_get now db key = fileHash) (scanKeys now db c ''file:*:hash'')))"


text \<open>Histories of calls to the index.\<close>

datatype indexOp = Add bytes | Remove bytes

fun applyOp :: "env \<Rightarrow> cbf \<Rightarrow> indexOp \<Rightarrow> cbf" where
  "applyOp env f (Add element) = cbf_add env f element"
| "applyOp env f (Remove element) = cbf_remove env f element"

definition runOps :: "env \<Rightarrow> cbf \<Rightarrow> indexOp list \<Rightarrow> cbf" where
  "runOps env f ops = foldl (applyOp env) f ops"

text \<open>A history stays inside the contract of the index when every \<open>add\<close> finds the
  positions of its element inside the array, with room under the bound for its increments,
  and every \<open>remove\<close> is of an element that is held at that moment (\<open>held\<close> lists the
  elements added and not yet removed): the spec leaves the removal of content never added
  undefined, and lets counters saturate at their bound.\<close>

fun inContract :: "env \<Rightarrow> cbf \<Rightarrow> bytes list \<Rightarrow> indexOp list \<Rightarrow> bool" where
  "inContract env f held [] = True"
| "inContract env f held (Add element # ops) =
     (list_all (\<lambda>i. i < length (cbfCounters f)
                 \<and> cbfCounters f ! i + count_list (cbf_indexes env f element) i \<le> cbfMaxCount f)
        (cbf_indexes env f element)
      \<and> inContract env (cbf_add env f element) (element # held) ops)"
| "inContract env f held (Remove element # ops) =
     (element \<in> set held \<and> inContract env (cbf_remove env f element) (remove1 element held) ops)"

fun heldAfter :: "bytes list \<Rightarrow> indexOp list \<Rightarrow> bytes list" where
  "heldAfter held [] = held"
| "heldAfter held (Add element # ops) = heldAfter (element # held) ops"
| "heldAfter held (Remove element # ops) = heldAfter (remove1 element held) ops"

text \<open>The number of increments the held elements give the counter at a position, and the
  invariant that every counter stands at that number at least.\<close>

definition load :: "env \<Rightarrow> cbf \<Rightarrow> bytes list \<Rightarrow> nat \<Rightarrow> nat" where
  "load env f held i = sum_list (map (\<lambda>element. count_list (cbf_indexes env f element) i) held)"

definition covers :: "env \<Rightarrow> cbf \<Rightarrow> bytes list \<Rightarrow> bool" where
  "covers env f held = (\<forall>i < length (cbfCounters f). load env f held i \<le> cbfCounters f ! i)"

text \<open>The digests of the environment are 64 hexadecimal digits long.\<close>

definition hexDigests :: "env \<Rightarrow> bool" where
  "hexDigests env = (\<forall>b. length (sha256hex env b) = 64 \<and> list_all isHexDigit (sha256hex env b))"

section \<open>Example inputs\<close>

text \<open>A small environment and world for running the definitions: a stand-in digest
  (63 zeros and one hexadecimal digit, taken from the length of the content), a stand-in
  for \<^verbatim>\<open>decodeURIComponent\<close> that decodes the one escaped name of the examples and
  rejects every other name with a percent sign, the extension from the first dot on, two
  hash positions per element in a filter of eight counters, and local time one hour east
  of UTC.\<close>

definition exZeros :: string where
  "exZeros = ''000000000000000000000000000000000000000000000000000000000000000''"

definition exDigest :: "bytes \<Rightarrow> string" where
  "exDigest b = exZeros @ [''0123456789abcdef'' ! (length b mod 16)]"

definition exEnv :: env where
  "exEnv =
     \<lparr>sha256hex = exDigest,
      decodeURIComponent =
        (\<lambda>name. if name = ''my%20notes.txt'' then Some ''my notes.txt''
                 else if CHR ''%'' \<in> set name then None else Some name),
      encodeURIComponent = (\<lambda>x. x),
      extname = dropWhile (\<lambda>c. c \<noteq> CHR ''.''),
      getIndexes = (\<lambda>element size k. map (\<lambda>j. (length element + j) mod size) [0..<k]),
      filterSize = 8, filterHashes = 2, filterMaxCount = 255,
      uploadPath = ''/srv/uploads'', awsBucket = ''clouddrop'', awsRegion = ''eu-west-1'',
      tzOffset = 60\<rparr>"

definition exBytes :: bytes where
  "exBytes = [0x41, 0x42, 0x43]"

definition exOther :: bytes where
  "exOther = [0x68, 0x69]"

text \<open>A content that the hash functions of \<open>exEnv\<close> give the positions of \<open>exBytes\<close>,
  and the environment with counters that saturate at one.\<close>

definition exCollide :: bytes where
  "exCollide = [0x41, 0x42, 0x43, 0x44, 0x45, 0x46, 0x47, 0x48, 0x49, 0x4a, 0x4b]"

definition exTiny :: env where
  "exTiny = exEnv\<lparr>filterMaxCount := 1\<rparr>"

definition exState :: "int \<Rightarrow> state" where
  "exState now =
     \<lparr>clock = now, redisDb = [Some (''session:42'', ''alice'', None)], savedFilter = None,
      uploads = [], diskError = None, bloomFilter = cbf_create exEnv,
      bucketObjects = [], s3Error = None, trace = []\<rparr>"

text \<open>The client as \<^verbatim>\<open>connect()\<close> leaves it, and the client after its reconnect strategy
  has given up (\<^verbatim>\<open>return new Error(...)\<close> once there were more than five retries).\<close>

definition exOpen :: client where
  "exOpen = \<lparr>isOpen = True, commandQueue = []\<rparr>"

definition exClosed :: client where
  "exClosed = \<lparr>isOpen = False, commandQueue = []\<rparr>"

definition exFullDisk :: state where
  "exFullDisk =
     (exState 0)\<lparr>diskError := Some (JsError ''Error'' ''ENOSPC: no space left on device, write'')\<rparr>"

text \<open>The world after \<open>exBytes\<close> was uploaded as \<^verbatim>\<open>my%20notes.txt\<close>, after it was
  uploaded once more as \<^verbatim>\<open>copy.txt\<close>, and after \<open>exOther\<close> was uploaded as well.\<close>

definition exStored :: state where
  "exStored = snd (uploadFile exEnv ''id-1'' (Some (''my%20notes.txt'', exBytes)) (exState 0))"

definition exShared :: state where
  "exShared = snd (uploadFile exEnv ''id-2'' (Some (''copy.txt'', exBytes)) exStored)"

definition exThree :: state where
  "exThree = snd (uploadFile exEnv ''id-3'' (Some (''hi.md'', exOther)) exShared)"

text \<open>The world after an upload whose blob write failed: the record is there, the blob is not.\<close>

definition exOrphan :: state where
  "exOrphan = snd (uploadFile exEnv ''id-1'' (Some (''my%20notes.txt'', exBytes)) exFullDisk)"

text \<open>A directory as two uploads leave it, under the digests SHA-256 gives: the bytes of
  \<^verbatim>\<open>abc\<close> uploaded under a name whose extension is the digest of \<^verbatim>\<open>hello\<close>, then
  the bytes of \<^verbatim>\<open>hello\<close> uploaded as \<^verbatim>\<open>hello.txt\<close>.\<close>

definition exSha256Abc :: string where
  "exSha256Abc = ''ba7816bf8f01cfea414140de5dae2223b00361a396177a9cb410ff61f20015ad''"

definition exSha256Hello :: string where
  "exSha256Hello = ''2cf24dba5fb0a30e26e83b2ac5b9e29e1b161e5c1fa7425e73043362938b9824''"

definition exAbc :: bytes where
  "exAbc = [0x61, 0x62, 0x63]"

definition exHello :: bytes where
  "exHello = [0x68, 0x65, 0x6c, 0x6c, 0x6f]"

definition exTwoBlobs :: state where
  "exTwoBlobs =
     (exState 0)
       \<lparr>redisDb :=
          [Some (''file:id-1:hash'', exSha256Abc, Some 2592000000),
           Some (''file:id-1:filename'', ''notes.'' @ exSha256Hello, Some 2592000000),
           Some (''file:id-2:hash'', exSha256Hello, Some 2592000000),
           Some (''file:id-2:filename'', ''hello.txt'', Some 2592000000)],
        uploads := [(exSha256Abc @ ''.'' @ exSha256Hello, exAbc), (exSha256Hello @ ''.txt'', exHello)],
        bloomFilter := cbf_add exEnv (cbf_add exEnv (cbf_create exEnv) exAbc) exHello\<rparr>"

text \<open>A directory as two other uploads leave it, listed in the order of the names: the
  bytes of \<^verbatim>\<open>hello\<close> uploaded under a name whose extension is the digest of \<^verbatim>\<open>abc\<close>
  (\<open>id-1\<close>), and the bytes of \<^verbatim>\<open>abc\<close> uploaded as \<^verbatim>\<open>abc.txt\<close> (\<open>id-2\<close>).\<close>

definition exSorted :: state where
  "exSorted =
     (exState 0)
       \<lparr>redisDb :=
          [Some (''file:id-1:hash'', exSha256Hello, Some 2592000000),
           Some (''file:id-1:filename'', ''notes.'' @ exSha256Abc, Some 2592000000),
           Some (''file:id-2:hash'', exSha256Abc, Some 2592000000),
           Some (''file:id-2:filename'', ''abc.txt'', Some 2592000000)],
        uploads := [(exSha256Hello @ ''.'' @ exSha256Abc, exHello), (exSha256Abc @ ''.txt'', exAbc)],
        bloomFilter := cbf_add exEnv (cbf_add exEnv (cbf_create exEnv) exHello) exAbc\<rparr>"

section \<open>Properties\<close>

subsection \<open>The Redis model\<close>

lemma db_get_Nil [simp]: "db_get now [] k = None"
  by (simp add: db_get_def)

lemma db_get_Cons:
  "db_get now (sl # db) k =
     (case sl of None \<Rightarrow> db_get now db k
      | Some (k', v, e) \<Rightarrow> if k' = k \<and> live now e then Some v else db_get now db k)"
  by (simp add: db_get_def holds_def split: option.splits prod.splits)

lemma db_ttl_Nil [simp]: "db_ttl now [] k = None"
  by (simp add: db_ttl_def)

lemma db_ttl_Cons:
  "db_ttl now (sl # db) k =
     (case sl of None \<Rightarrow> db_ttl now db k
      | Some (k', v, e) \<Rightarrow> if k' = k \<and> live now e then e else db_ttl now db k)"
  by (simp add: db_ttl_def holds_def split: option.splits prod.splits)

lemma db_get_del:
  "db_get now (db_del db ks) k = (if k \<in> set ks then None else db_get now db k)"
  by (induction db) (auto simp: db_del_def db_get_Cons split: option.splits)

lemma db_get_pexpireAt_future:
  "now < tm \<Longrightarrow> db_get now (db_pexpireAt now db k tm) k' = db_get now db k'"
  by (induction db) (auto simp: db_pexpireAt_def db_get_Cons live_def split: option.splits)

lemma db_get_pexpireAt_past:
  "tm \<le> now \<Longrightarrow>
   db_get now (db_pexpireAt now db k tm) k' = (if k' = k then None else db_get now db k')"
  by (simp add: db_pexpireAt_def db_get_del)

lemma db_ttl_pexpireAt_future:
  "now < tm \<Longrightarrow> db_get now db k = Some v \<Longrightarrow> db_ttl now (db_pexpireAt now db k tm) k = Some tm"
  by (induction db)
     (auto simp: db_pexpireAt_def db_get_Cons db_ttl_Cons live_def split: option.splits if_splits)

lemma db_get_pexpireAt_later:
  "now < tm \<Longrightarrow> tm \<le> t \<Longrightarrow> db_get t (db_pexpireAt now db k tm) k = None"
  by (induction db)
     (auto simp: db_pexpireAt_def db_get_Cons live_def split: option.splits if_splits)

subsection \<open>Expiry at three o'clock\<close>

lemma setHours3_local:
  "setHours3 tz now + tz * 60000 = msPerDay * ((now + tz * 60000) div msPerDay) + 3 * 3600000"
  by (simp add: setHours3_def Let_def minus_mod_eq_mult_div)

lemma setHours3_day:
  "(setHours3 tz now + tz * 60000) div msPerDay = (now + tz * 60000) div msPerDay"
  "(setHours3 tz now + tz * 60000) mod msPerDay = 3 * 3600000"
  unfolding setHours3_local by (simp_all add: msPerDay_def)

lemma setHours3_dvd: "1000 dvd setHours3 tz now"
proof -
  have "setHours3 tz now =
      1000 * (86400 * ((now + tz * 60000) div msPerDay) + 10800 - tz * 60)"
    using setHours3_local [of tz now] by (simp add: msPerDay_def)
  then show ?thesis by (metis dvd_triv_left)
qed

lemma parseInt_setHours3: "parseIntDiv1000 (setHours3 tz now) * 1000 = setHours3 tz now"
  using setHours3_dvd [of tz now] by (auto simp: parseIntDiv1000_def)

lemma after_three_iff:
  "3 * 3600000 < (now + tz * 60000) mod msPerDay \<longleftrightarrow> setHours3 tz now < now"
  by (auto simp: setHours3_def Let_def)

text \<open>
  C10. \<^verbatim>\<open>setExpire(key)\<close> with \<open>second = 0\<close> on a key that exists sets no relative
  time to live. The expiry it sets is the absolute time \<open>todayEnd\<close>: 03:00:00.000 local
  time on the local calendar day of the call. Called before that time, the key stays
  readable, carries the expiry \<open>todayEnd\<close> and is gone from then on; called at or after it,
  and so whenever the local time of day is past 03:00, the time lies in the past and the
  key is gone at once.
\<close>

theorem setExpire_default_absolute:
  assumes "redis_get s key = Some v"
  shows "let s' = setExpire env key 0 s;
             tz = tzOffset env * 60000;
             todayEnd = setHours3 (tzOffset env) (clock s)
         in (todayEnd + tz) div msPerDay = (clock s + tz) div msPerDay
          \<and> (todayEnd + tz) mod msPerDay = 3 * 3600000
          \<and> (clock s < todayEnd \<longrightarrow>
                redis_get s' key = Some v
              \<and> db_ttl (clock s) (redisDb s') key = Some todayEnd
              \<and> (\<forall>t. todayEnd \<le> t \<longrightarrow> db_get t (redisDb s') key = None))
          \<and> (todayEnd \<le> clock s \<longrightarrow> redis_get s' key = None)
          \<and> (3 * 3600000 < (clock s + tz) mod msPerDay \<longrightarrow> todayEnd < clock s)"
proof -
  let ?T = "setHours3 (tzOffset env) (clock s)"
  have db: "redisDb (setExpire env key 0 s) = db_pexpireAt (clock s) (redisDb s) key ?T"
    by (simp add: setExpire_def logEvent_def db_expireAt_def parseInt_setHours3 Let_def)
  have ck: "clock (setExpire env key 0 s) = clock s"
    by (simp add: setExpire_def logEvent_def Let_def)
  have live: "db_get (clock s) (redisDb s) key = Some v"
    using assms by (simp add: redis_get_def)
  show ?thesis
    unfolding Let_def redis_get_def db ck
    using live setHours3_day [of "tzOffset env" "clock s"]
      after_three_iff [of "clock s" "tzOffset env"]
    by (auto simp: db_get_pexpireAt_future db_get_pexpireAt_past db_ttl_pexpireAt_future
        db_get_pexpireAt_later)
qed

text \<open>At 00:00:01 UTC (01:00:01 local) the key survives with the expiry 02:00:00 UTC;
  at 13:53:20 UTC of the same day it is deleted by the call.\<close>

theorem setExpire_default_absolute_witness:
  "redis_get (exState 1000) ''session:42'' = Some ''alice''
   \<and> setHours3 (tzOffset exEnv) 1000 = 7200000
   \<and> redis_get (setExpire exEnv ''session:42'' 0 (exState 1000)) ''session:42'' = Some ''alice''
   \<and> db_ttl 1000 (redisDb (setExpire exEnv ''session:42'' 0 (exState 1000))) ''session:42''
       = Some 7200000
   \<and> redis_get (exState 50000000) ''session:42'' = Some ''alice''
   \<and> redis_get (setExpire exEnv ''session:42'' 0 (exState 50000000)) ''session:42'' = None"
proof -
  have h1: "redis_get (exState 1000) ''session:42'' = Some ''alice''"
    by (simp add: exState_def redis_get_def db_get_Cons live_def)
  have h2: "redis_get (exState 50000000) ''session:42'' = Some ''alice''"
    by (simp add: exState_def redis_get_def db_get_Cons live_def)
  have t1: "setHours3 (tzOffset exEnv) 1000 = 7200000"
    by (simp add: setHours3_def exEnv_def msPerDay_def)
  have t2: "setHours3 (tzOffset exEnv) 50000000 = 7200000"
    by (simp add: setHours3_def exEnv_def msPerDay_def)
  have c1: "clock (exState 1000) = 1000" and c2: "clock (exState 50000000) = 50000000"
    by (simp_all add: exState_def)
  show ?thesis
    using setExpire_default_absolute [OF h1, of exEnv] setExpire_default_absolute [OF h2, of exEnv]
    by (simp add: Let_def t1 t2 c1 c2 h1 h2)
qed

subsection \<open>Keys, values and scans\<close>

lemma db_get_append:
  "db_get now (xs @ ys) k = (case db_get now xs k of Some v \<Rightarrow> Some v | None \<Rightarrow> db_get now ys k)"
  by (induction xs) (auto simp: db_get_Cons split: option.splits)

lemma db_get_unkeyed: "\<not> list_ex (keyed k) db \<Longrightarrow> db_get now db k = None"
  by (induction db) (auto simp: db_get_Cons keyed_def split: option.splits)

lemma db_get_overwrite_other:
  "k' \<noteq> k \<Longrightarrow>
   db_get now (map (\<lambda>sl. if keyed k sl then Some (k, v, None) else sl) db) k' = db_get now db k'"
  by (induction db) (auto simp: db_get_Cons keyed_def split: option.splits)

lemma db_get_overwrite_same:
  "list_ex (keyed k) db \<Longrightarrow>
   db_get now (map (\<lambda>sl. if keyed k sl then Some (k, v, None) else sl) db) k = Some v"
  by (induction db) (auto simp: db_get_Cons keyed_def live_def split: option.splits)

lemma db_get_set:
  "db_get now (db_set db k v) k' = (if k' = k then Some v else db_get now db k')"
  by (auto simp: db_set_def db_get_append db_get_Cons db_get_unkeyed live_def
      db_get_overwrite_other db_get_overwrite_same split: option.splits)

lemma db_get_expire:
  "0 < seconds \<Longrightarrow> db_get now (db_expire now db k seconds) k' = db_get now db k'"
  by (simp add: db_expire_def db_get_pexpireAt_future)

lemma db_ttl_expire:
  "0 < seconds \<Longrightarrow> db_get now db k = Some v \<Longrightarrow>
   db_ttl now (db_expire now db k seconds) k = Some (now + seconds * 1000)"
  by (simp add: db_expire_def db_ttl_pexpireAt_future)

lemma hashKey_neq_filenameKey: "hashKey a \<noteq> filenameKey b"
proof
  assume "hashKey a = filenameKey b"
  then have "last (hashKey a) = last (filenameKey b)" by simp
  then show False by (simp add: hashKey_def filenameKey_def)
qed

lemma hashKey_inj: "hashKey a = hashKey b \<longleftrightarrow> a = b"
  by (simp add: hashKey_def)

lemma filenameKey_inj: "filenameKey a = filenameKey b \<longleftrightarrow> a = b"
  by (simp add: filenameKey_def)

lemma length_db_del [simp]: "length (db_del db ks) = length db"
  by (simp add: db_del_def)

lemma db_del_Nil [simp]: "db_del db [] = db"
  by (induction db) (auto simp: db_del_def split: option.splits)

lemma db_del_nth:
  "i < length db \<Longrightarrow>
   db_del db ks ! i = (case db ! i of None \<Rightarrow> None
                       | Some (k, v, e) \<Rightarrow> if k \<in> set ks then None else Some (k, v, e))"
  by (simp add: db_del_def)

lemma db_get_slot:
  "db_get now db k = Some v \<Longrightarrow> \<exists>i e. i < length db \<and> db ! i = Some (k, v, e) \<and> live now e"
proof (induction db)
  case Nil
  then show ?case by simp
next
  case (Cons sl db)
  show ?case
  proof (cases "\<exists>e. sl = Some (k, v, e) \<and> live now e")
    case True
    then obtain e where "sl = Some (k, v, e)" "live now e" by blast
    then have "0 < length (sl # db) \<and> (sl # db) ! 0 = Some (k, v, e) \<and> live now e" by simp
    then show ?thesis by blast
  next
    case False
    with Cons.prems have "db_get now db k = Some v"
      by (auto simp: db_get_Cons split: option.splits if_splits)
    from Cons.IH [OF this] obtain i e where "i < length db" "db ! i = Some (k, v, e)" "live now e"
      by blast
    then have "Suc i < length (sl # db) \<and> (sl # db) ! Suc i = Some (k, v, e) \<and> live now e" by simp
    then show ?thesis by blast
  qed
qed

lemma in_map_filter: "y \<in> set (List.map_filter f xs) \<longleftrightarrow> (\<exists>x\<in>set xs. f x = Some y)"
  by (induction xs) (auto split: option.splits)

lemma scan_cursor: "fst (db_scan now db c p n) = (if c + n < length db then c + n else 0)"
  by (simp add: db_scan_def Let_def)

lemma scanKeys_glob: "k \<in> set (scanKeys now db c p) \<Longrightarrow> glob p k"
  by (auto simp: scanKeys_def db_scan_def Let_def in_map_filter split: option.splits if_splits)

lemma scanKeys_covers:
  assumes "c \<le> i" "i < c + 100" "i < length db" "db ! i = Some (k, v, e)" "live now e" "glob p k"
  shows "k \<in> set (scanKeys now db c p)"
proof -
  have "db ! i \<in> set (take 100 (drop c db))"
  proof -
    have "i - c < length (take 100 (drop c db))" using assms by auto
    moreover have "take 100 (drop c db) ! (i - c) = db ! i" using assms by simp
    ultimately show ?thesis by (metis nth_mem)
  qed
  then show ?thesis
    using assms by (force simp: scanKeys_def db_scan_def Let_def in_map_filter)
qed

lemma glob_star_suffix: "glob ps s \<Longrightarrow> glob (CHR ''*'' # ps) (x @ s)"
proof (induction x)
  case Nil
  then show ?case by (cases s) simp_all
next
  case (Cons a x)
  then show ?case by simp
qed

lemma glob_hashKey: "glob ''file:*:hash'' (hashKey fileId)"
  using glob_star_suffix [of "'':hash''" "'':hash''" fileId] by (simp add: hashKey_def)

lemma glob_filenameKey: "glob ''file:*:filename'' (filenameKey fileId)"
  using glob_star_suffix [of "'':filename''" "'':filename''" fileId] by (simp add: filenameKey_def)

lemma fileIdOfHashKey_hashKey [simp]: "fileIdOfHashKey (hashKey fileId) = fileId"
  by (simp add: fileIdOfHashKey_def hashKey_def)

lemma glob_Cons_literal:
  "p \<noteq> CHR ''*'' \<Longrightarrow> glob (p # ps) s \<longleftrightarrow> (\<exists>t. s = p # t \<and> glob ps t)"
  by (cases s) auto

lemma glob_literal: "CHR ''*'' \<notin> set ps \<Longrightarrow> glob ps s \<longleftrightarrow> s = ps"
proof (induction ps arbitrary: s)
  case Nil
  then show ?case by (cases s) simp_all
next
  case (Cons p ps)
  then show ?case by (cases s) auto
qed

lemma glob_star_elim: "glob (CHR ''*'' # ps) s \<Longrightarrow> \<exists>x t. s = x @ t \<and> glob ps t"
proof (induction s)
  case Nil
  then have "glob ps []" by simp
  then show ?case by (intro exI [of _ "[]"]) simp
next
  case (Cons c s)
  from Cons.prems have "glob ps (c # s) \<or> glob (CHR ''*'' # ps) s" by simp
  then show ?case
  proof
    assume "glob ps (c # s)"
    then show ?thesis by (intro exI [of _ "[]"] exI [of _ "c # s"]) simp
  next
    assume "glob (CHR ''*'' # ps) s"
    from Cons.IH [OF this] obtain x t where xt: "s = x @ t" "glob ps t" by auto
    show ?thesis by (intro exI [of _ "c # x"] exI [of _ t]) (simp add: xt)
  qed
qed

lemma glob_hash_form: "glob ''file:*:hash'' k \<Longrightarrow> \<exists>x. k = hashKey x"
proof -
  assume "glob ''file:*:hash'' k"
  then obtain t where t: "k = ''file:'' @ t" "glob (CHR ''*'' # '':hash'') t"
    by (auto simp: glob_Cons_literal)
  from glob_star_elim [OF t(2)] obtain x u where "t = x @ u" "glob '':hash'' u" by blast
  then have "k = hashKey x" using t(1) by (simp add: glob_literal hashKey_def)
  then show ?thesis by blast
qed

subsection \<open>The scan loops\<close>

lemma glob_star [simp]: "glob ''*'' k"
  by (induction k) simp_all







lemma deleteFileInfoWithSameHash_loop_unfold:
  "deleteFileInfoWithSameHash_loop now fileHash c db =
     (if c + 100 < length db
      then deleteFileInfoWithSameHash_loop now fileHash (c + 100) (db_del db (sameHashKeys now fileHash db c))
      else db_del db (sameHashKeys now fileHash db c))"
  by (subst deleteFileInfoWithSameHash_loop.simps)
     (simp add: Let_def scan_cursor scanKeys_def sameHashKeys_def)

lemma sameHashKeys_pair:
  "hashKey fileId \<in> set (sameHashKeys now fileHash db c) \<Longrightarrow>
   filenameKey fileId \<in> set (sameHashKeys now fileHash db c)"
  by (auto simp: sameHashKeys_def hashKey_neq_filenameKey)

lemma sameHashKeys_covers:
  assumes "c \<le> i" "i < c + 100" "i < length db" "db ! i = Some (hashKey fileId, v, e)" "live now e"
    "db_get now db (hashKey fileId) = fileHash"
  shows "hashKey fileId \<in> set (sameHashKeys now fileHash db c)"
  using scanKeys_covers [OF assms(1-5) glob_hashKey] assms(6) by (auto simp: sameHashKeys_def)

lemma sameHash_loop_absent:
  "db_get now db k = None \<Longrightarrow> db_get now (deleteFileInfoWithSameHash_loop now fileHash c db) k = None"
proof (induction "length db - c" arbitrary: c db rule: less_induct)
  case less
  have d: "db_get now (db_del db (sameHashKeys now fileHash db c)) k = None"
    using less.prems by (simp add: db_get_del)
  show ?case
  proof (cases "c + 100 < length db")
    case True
    have "db_get now (deleteFileInfoWithSameHash_loop now fileHash (c + 100)
            (db_del db (sameHashKeys now fileHash db c))) k = None"
      using True d by (intro less.hyps) simp_all
    then show ?thesis
      using True by (subst deleteFileInfoWithSameHash_loop_unfold) simp
  next
    case False
    then show ?thesis
      using d by (subst deleteFileInfoWithSameHash_loop_unfold) simp
  qed
qed

lemma sameHash_loop_covers:
  assumes "c \<le> i" "i < length db" "db ! i = Some (hashKey fileId, v, e)" "live now e"
    "db_get now db (hashKey fileId) = fileHash"
  shows "db_get now (deleteFileInfoWithSameHash_loop now fileHash c db) (hashKey fileId) = None
       \<and> db_get now (deleteFileInfoWithSameHash_loop now fileHash c db) (filenameKey fileId) = None"
  using assms
proof (induction "length db - c" arbitrary: c db rule: less_induct)
  case less
  let ?ks = "sameHashKeys now fileHash db c"
  let ?db' = "db_del db ?ks"
  show ?case
  proof (cases "hashKey fileId \<in> set ?ks")
    case True
    then have "db_get now ?db' (hashKey fileId) = None" "db_get now ?db' (filenameKey fileId) = None"
      using sameHashKeys_pair [OF True] by (simp_all add: db_get_del)
    then show ?thesis
      by (subst (1 2) deleteFileInfoWithSameHash_loop_unfold) (simp add: sameHash_loop_absent)
  next
    case False
    then have far: "c + 100 \<le> i"
      using sameHashKeys_covers [of c i db fileId v e now fileHash] less.prems by force
    then have more: "c + 100 < length db" using less.prems by simp
    have slot: "?db' ! i = Some (hashKey fileId, v, e)"
      using False less.prems by (simp add: db_del_nth)
    have same: "db_get now ?db' (hashKey fileId) = fileHash"
      using False less.prems by (simp add: db_get_del)
    have "db_get now (deleteFileInfoWithSameHash_loop now fileHash (c + 100) ?db') (hashKey fileId) = None
        \<and> db_get now (deleteFileInfoWithSameHash_loop now fileHash (c + 100) ?db') (filenameKey fileId) = None"
      using more far slot same less.prems by (intro less.hyps) simp_all
    then show ?thesis
      using more by (subst (1 2) deleteFileInfoWithSameHash_loop_unfold) simp
  qed
qed

lemma sameHash_loop_deletes:
  assumes "db_get now db (hashKey fileId) = Some h"
  shows "db_get now (deleteFileInfoWithSameHash_loop now (Some h) 0 db) (hashKey fileId) = None"
    "db_get now (deleteFileInfoWithSameHash_loop now (Some h) 0 db) (filenameKey fileId) = None"
proof -
  from db_get_slot [OF assms] obtain i e
    where "i < length db" "db ! i = Some (hashKey fileId, h, e)" "live now e" by blast
  then have both: "db_get now (deleteFileInfoWithSameHash_loop now (Some h) 0 db) (hashKey fileId) = None
       \<and> db_get now (deleteFileInfoWithSameHash_loop now (Some h) 0 db) (filenameKey fileId) = None"
    using sameHash_loop_covers [of 0 i db fileId h e now "Some h"] assms by simp
  show "db_get now (deleteFileInfoWithSameHash_loop now (Some h) 0 db) (hashKey fileId) = None"
    using both by simp
  show "db_get now (deleteFileInfoWithSameHash_loop now (Some h) 0 db) (filenameKey fileId) = None"
    using both by simp
qed

lemma sameHashKeys_form:
  assumes "k \<in> set (sameHashKeys now fileHash db c)"
  shows "\<exists>x. db_get now db (hashKey x) = fileHash \<and> (k = hashKey x \<or> k = filenameKey x)"
proof -
  from assms obtain key where key: "key \<in> set (scanKeys now db c ''file:*:hash'')"
    "db_get now db key = fileHash" "k = key \<or> k = filenameKey (fileIdOfHashKey key)"
    by (auto simp: sameHashKeys_def)
  from glob_hash_form [OF scanKeys_glob [OF key(1)]] obtain x where "key = hashKey x" by blast
  with key show ?thesis by auto
qed

lemma sameHash_loop_other:
  assumes "\<And>x. db_get now db (hashKey x) = Some h \<Longrightarrow> k \<noteq> hashKey x \<and> k \<noteq> filenameKey x"
  shows "db_get now (deleteFileInfoWithSameHash_loop now (Some h) c db) k = db_get now db k"
  using assms
proof (induction "length db - c" arbitrary: c db rule: less_induct)
  case less
  let ?ks = "sameHashKeys now (Some h) db c"
  have k: "k \<notin> set ?ks"
    using sameHashKeys_form [of k now "Some h" db c] less.prems by blast
  then have d: "db_get now (db_del db ?ks) k = db_get now db k" by (simp add: db_get_del)
  show ?case
  proof (cases "c + 100 < length db")
    case True
    have "db_get now (deleteFileInfoWithSameHash_loop now (Some h) (c + 100) (db_del db ?ks)) k
        = db_get now (db_del db ?ks) k"
    proof (rule less.hyps)
      show "length (db_del db ?ks) - (c + 100) < length db - c" using True by simp
      show "k \<noteq> hashKey x \<and> k \<noteq> filenameKey x" if "db_get now (db_del db ?ks) (hashKey x) = Some h" for x
        using that less.prems [of x] by (simp add: db_get_del split: if_splits)
    qed
    then show ?thesis
      using True d by (subst deleteFileInfoWithSameHash_loop_unfold) simp
  next
    case False
    then show ?thesis
      using d by (subst deleteFileInfoWithSameHash_loop_unfold) simp
  qed
qed

subsection \<open>The deduplication index\<close>

lemma length_increment [simp]: "length (increment bound cs i) = length cs"
  by (simp add: increment_def)

lemma length_foldl_increment [simp]: "length (foldl (increment bound) cs is) = length cs"
  by (induction "is" arbitrary: cs) simp_all

lemma foldl_increment_pos:
  "0 < bound \<Longrightarrow> j < length cs \<Longrightarrow> j \<in> set is \<or> 0 < cs ! j \<Longrightarrow>
   0 < foldl (increment bound) cs is ! j"
proof (induction "is" arbitrary: cs)
  case Nil
  then show ?case by simp
next
  case (Cons i "is")
  have "j \<in> set is \<or> 0 < increment bound cs i ! j"
    using Cons.prems by (auto simp: increment_def nth_list_update)
  with Cons.IH [of "increment bound cs i"] Cons.prems show ?case by simp
qed

lemma cbf_indexes_add [simp]: "cbf_indexes env (cbf_add env f x) y = cbf_indexes env f y"
  by (simp add: cbf_indexes_def cbf_add_def)

lemma cbf_has_add:
  "inRange env f element \<Longrightarrow> cbf_has env (cbf_add env f element) element"
  unfolding cbf_has_def inRange_def list_all_iff
  by (auto simp: cbf_add_def cbf_indexes_def intro!: foldl_increment_pos)

lemma cbf_add_fields:
  "cbfCounters (cbf_add env f x) = foldl (increment (cbfMaxCount f)) (cbfCounters f) (cbf_indexes env f x)"
  "cbfMaxCount (cbf_add env f x) = cbfMaxCount f"
  by (simp_all add: cbf_add_def)

lemma cbf_remove_fields:
  "cbfCounters (cbf_remove env f x) = foldl decrement (cbfCounters f) (cbf_indexes env f x)"
  "cbfMaxCount (cbf_remove env f x) = cbfMaxCount f"
  by (simp_all add: cbf_remove_def)


lemma foldl_increment_nth:
  "j < length cs \<Longrightarrow> cs ! j + count_list is j \<le> bound \<Longrightarrow>
   foldl (increment bound) cs is ! j = cs ! j + count_list is j"
proof (induction "is" arbitrary: cs)
  case Nil
  then show ?case by simp
next
  case (Cons i "is")
  have step: "increment bound cs i ! j = cs ! j + (if i = j then 1 else 0)"
    using Cons.prems by (auto simp: increment_def nth_list_update)
  have "foldl (increment bound) (increment bound cs i) is ! j
      = increment bound cs i ! j + count_list is j"
    using Cons.prems step by (intro Cons.IH) auto
  then show ?case using step by auto
qed

lemma length_decrement [simp]: "length (decrement cs i) = length cs"
  by (simp add: decrement_def)

lemma length_foldl_decrement [simp]: "length (foldl decrement cs is) = length cs"
  by (induction "is" arbitrary: cs) simp_all

lemma foldl_decrement_nth:
  "j < length cs \<Longrightarrow> foldl decrement cs is ! j = cs ! j - count_list is j"
proof (induction "is" arbitrary: cs)
  case Nil
  then show ?case by simp
next
  case (Cons i "is")
  have step: "decrement cs i ! j = cs ! j - (if i = j then 1 else 0)"
    using Cons.prems by (auto simp: decrement_def nth_list_update)
  have "foldl decrement (decrement cs i) is ! j = decrement cs i ! j - count_list is j"
    using Cons.prems by (intro Cons.IH) auto
  then show ?case using step by auto
qed

lemma cbf_indexes_remove [simp]: "cbf_indexes env (cbf_remove env f x) y = cbf_indexes env f y"
  by (simp add: cbf_indexes_def cbf_remove_def)

lemma load_add [simp]: "load env (cbf_add env f x) held i = load env f held i"
  by (simp add: load_def)

lemma load_remove [simp]: "load env (cbf_remove env f x) held i = load env f held i"
  by (simp add: load_def)

lemma load_Cons: "load env f (x # held) i = count_list (cbf_indexes env f x) i + load env f held i"
  by (simp add: load_def)

lemma load_remove1:
  "x \<in> set held \<Longrightarrow>
   load env f held i = count_list (cbf_indexes env f x) i + load env f (remove1 x held) i"
  by (simp add: load_def sum_list_map_remove1)

lemma foldl_increment_untouched:
  "j \<notin> set is \<Longrightarrow> foldl (increment bound) cs is ! j = cs ! j"
  by (induction "is" arbitrary: cs) (auto simp: increment_def nth_list_update)

lemma foldl_decrement_untouched:
  "j \<notin> set is \<Longrightarrow> foldl decrement cs is ! j = cs ! j"
  by (induction "is" arbitrary: cs) (auto simp: decrement_def nth_list_update)

lemma covers_Nil: "covers env f []"
  by (simp add: covers_def load_def)

lemma covers_add:
  assumes "covers env f held"
    and "list_all (\<lambda>i. i < length (cbfCounters f)
            \<and> cbfCounters f ! i + count_list (cbf_indexes env f x) i \<le> cbfMaxCount f)
           (cbf_indexes env f x)"
  shows "covers env (cbf_add env f x) (x # held)"
  unfolding covers_def
proof (intro allI impI)
  fix i assume "i < length (cbfCounters (cbf_add env f x))"
  then have i: "i < length (cbfCounters f)" by (simp add: cbf_add_def)
  from assms(1) i have le: "load env f held i \<le> cbfCounters f ! i" by (simp add: covers_def)
  have cs: "cbfCounters (cbf_add env f x) =
      foldl (increment (cbfMaxCount f)) (cbfCounters f) (cbf_indexes env f x)"
    by (simp add: cbf_add_def)
  show "load env (cbf_add env f x) (x # held) i \<le> cbfCounters (cbf_add env f x) ! i"
  proof (cases "i \<in> set (cbf_indexes env f x)")
    case True
    with assms(2) have "cbfCounters f ! i + count_list (cbf_indexes env f x) i \<le> cbfMaxCount f"
      by (simp add: list_all_iff)
    then show ?thesis
      unfolding cs load_add load_Cons using le i by (simp add: foldl_increment_nth)
  next
    case False
    then show ?thesis
      unfolding cs load_add load_Cons using le i by (simp add: foldl_increment_untouched)
  qed
qed

lemma covers_remove:
  assumes "covers env f held" and "x \<in> set held"
  shows "covers env (cbf_remove env f x) (remove1 x held)"
  unfolding covers_def
proof (intro allI impI)
  fix i assume "i < length (cbfCounters (cbf_remove env f x))"
  then have i: "i < length (cbfCounters f)" by (simp add: cbf_remove_def)
  from assms(1) i have le: "load env f held i \<le> cbfCounters f ! i" by (simp add: covers_def)
  have cs: "cbfCounters (cbf_remove env f x) = foldl decrement (cbfCounters f) (cbf_indexes env f x)"
    by (simp add: cbf_remove_def)
  show "load env (cbf_remove env f x) (remove1 x held) i \<le> cbfCounters (cbf_remove env f x) ! i"
    unfolding cs load_remove
    using le i load_remove1 [OF assms(2), of env f i]
    by (simp add: foldl_decrement_nth)
qed

lemma covers_has:
  assumes "covers env f held" and "x \<in> set held"
    and "list_all (\<lambda>i. i < length (cbfCounters f)) (cbf_indexes env f x)"
  shows "cbf_has env f x"
  unfolding cbf_has_def list_all_iff
proof
  fix i assume m: "i \<in> set (cbf_indexes env f x)"
  with assms(3) have i: "i < length (cbfCounters f)" by (simp add: list_all_iff)
  have "count_list (cbf_indexes env f x) i \<noteq> 0"
    using m by (simp add: count_list_0_iff)
  then have "0 < count_list (cbf_indexes env f x) i" by simp
  then have "0 < load env f held i"
    using load_remove1 [OF assms(2), of env f i] by simp
  moreover from assms(1) i have "load env f held i \<le> cbfCounters f ! i" by (simp add: covers_def)
  ultimately show "i < length (cbfCounters f) \<and> 0 < cbfCounters f ! i"
    using i by simp
qed

lemma length_counters_add [simp]: "length (cbfCounters (cbf_add env f x)) = length (cbfCounters f)"
  by (simp add: cbf_add_def)

lemma length_counters_remove [simp]: "length (cbfCounters (cbf_remove env f x)) = length (cbfCounters f)"
  by (simp add: cbf_remove_def)

lemma runOps_covers:
  "covers env f held \<Longrightarrow> inContract env f held ops \<Longrightarrow>
   covers env (runOps env f ops) (heldAfter held ops)
   \<and> length (cbfCounters (runOps env f ops)) = length (cbfCounters f)
   \<and> cbf_indexes env (runOps env f ops) x = cbf_indexes env f x"
proof (induction ops arbitrary: f held)
  case Nil
  then show ?case by (simp add: runOps_def)
next
  case (Cons op ops)
  show ?case
  proof (cases op)
    case (Add element)
    with Cons.prems have "covers env (cbf_add env f element) (element # held)"
      "inContract env (cbf_add env f element) (element # held) ops"
      by (simp_all add: covers_add)
    from Cons.IH [OF this] show ?thesis using Add by (simp add: runOps_def)
  next
    case (Remove element)
    with Cons.prems have "covers env (cbf_remove env f element) (remove1 element held)"
      "inContract env (cbf_remove env f element) (remove1 element held) ops"
      by (simp_all add: covers_remove)
    from Cons.IH [OF this] show ?thesis using Remove by (simp add: runOps_def)
  qed
qed

text \<open>The states a freshly created index reaches by a history inside the contract are
  among those the invariant holds of.\<close>

lemma covers_reachable:
  "inContract env (cbf_create env) [] ops \<Longrightarrow>
   covers env (runOps env (cbf_create env) ops) (heldAfter [] ops)"
  using runOps_covers [OF covers_Nil] by blast

lemma heldAfter_keeps:
  "x \<in> set held \<Longrightarrow> Remove x \<notin> set ops \<Longrightarrow> x \<in> set (heldAfter held ops)"
proof (induction ops arbitrary: held)
  case Nil
  then show ?case by simp
next
  case (Cons op ops)
  then show ?case by (cases op) auto
qed

lemma deserialize_serialize [simp]: "deserialize (serialize f) = f"
  by (simp add: serialize_def deserialize_def comp_def)

lemma initFilter_saved:
  "bloomFilter (initFilter env (saveBloomFilter f s)) = f"
  by (simp add: initFilter_def loadFilter_def loadBloomFilter_def saveBloomFilter_def logEvent_def)

text \<open>
  C5, as the index has it. In every state of the index, \<open>has\<close> of an element right after
  its \<open>add\<close> is true. It is still true after any further calls among which there is no
  \<open>remove\<close> of the element, as long as the history stays inside the contract of the index
  from a state whose counters account for the elements \<open>held\<close> in it (any state does for
  none held, and so does every state a fresh index reaches inside the contract): every
  \<open>remove\<close> is of an element held at that moment and no \<open>add\<close> is clipped at the bound
  of a counter. Serialising the filter and reading it back, directly or in the service that
  loads the saved snapshot, gives the same answer for every element.
\<close>

theorem cbf_no_false_negative:
  "(inRange env f element \<longrightarrow> cbf_has env (cbf_add env f element) element)
   \<and> (covers env f held \<and> inContract env f held (Add element # post) \<and> Remove element \<notin> set post \<longrightarrow>
        cbf_has env (runOps env f (Add element # post)) element)
   \<and> (\<forall>x. cbf_has env (deserialize (serialize f)) x = cbf_has env f x)
   \<and> (\<forall>s x. cbf_has env (bloomFilter (initFilter env (saveBloomFilter f s))) x = cbf_has env f x)"
proof -
  have later: "cbf_has env (runOps env f (Add element # post)) element"
    if c: "covers env f held" and h: "inContract env f held (Add element # post)"
      and r: "Remove element \<notin> set post"
  proof -
    let ?ops = "Add element # post"
    note run = runOps_covers [OF c h, of element]
    have "element \<in> set (element # held)" by simp
    from heldAfter_keeps [OF this r] have held: "element \<in> set (heldAfter held ?ops)" by simp
    have "list_all (\<lambda>i. i < length (cbfCounters f)) (cbf_indexes env f element)"
      using h by (simp add: list_all_iff)
    then have "list_all (\<lambda>i. i < length (cbfCounters (runOps env f ?ops)))
        (cbf_indexes env (runOps env f ?ops) element)"
      using run by simp
    with run held show ?thesis
      by (intro covers_has [where held = "heldAfter held ?ops"]) simp_all
  qed
  have imm: "inRange env f element \<longrightarrow> cbf_has env (cbf_add env f element) element"
    by (simp add: cbf_has_add)
  have hist: "covers env f held \<and> inContract env f held (Add element # post)
      \<and> Remove element \<notin> set post \<longrightarrow> cbf_has env (runOps env f (Add element # post)) element"
  proof (intro impI, elim conjE)
    assume "covers env f held" "inContract env f held (Add element # post)" "Remove element \<notin> set post"
    then show "cbf_has env (runOps env f (Add element # post)) element" by (rule later)
  qed
  have rt: "\<forall>x. cbf_has env (deserialize (serialize f)) x = cbf_has env f x"
    by simp
  have loaded: "\<forall>s x. cbf_has env (bloomFilter (initFilter env (saveBloomFilter f s))) x = cbf_has env f x"
    by (simp add: initFilter_saved)
  show ?thesis
    by (intro conjI) (rule imm, rule hist, rule rt, rule loaded)
qed

subsection \<open>Upload\<close>

lemma saveFileInfo_fields:
  "clock (saveFileInfo env fileId h fn s) = clock s"
  "uploads (saveFileInfo env fileId h fn s) = uploads s"
  "bloomFilter (saveFileInfo env fileId h fn s) = bloomFilter s"
  "savedFilter (saveFileInfo env fileId h fn s) = savedFilter s"
  "diskError (saveFileInfo env fileId h fn s) = diskError s"
  "bucketObjects (saveFileInfo env fileId h fn s) = bucketObjects s"
  "s3Error (saveFileInfo env fileId h fn s) = s3Error s"
  "trace (saveFileInfo env fileId h fn s) = trace s @
     [RedisSet (hashKey fileId) h, RedisSetExpire (hashKey fileId) 2592000,
      RedisSet (filenameKey fileId) fn, RedisSetExpire (filenameKey fileId) 2592000]"
  by (simp_all add: saveFileInfo_def redis_set_def setExpire_def logEvent_def Let_def)

lemma saveFileInfo_redisDb:
  "redisDb (saveFileInfo env fileId h fn s) =
     db_expire (clock s)
       (db_set (db_expire (clock s) (db_set (redisDb s) (hashKey fileId) h) (hashKey fileId) 2592000)
          (filenameKey fileId) fn)
       (filenameKey fileId) 2592000"
  by (simp add: saveFileInfo_def redis_set_def setExpire_def logEvent_def Let_def)

lemma saveFileInfo_get:
  "redis_get (saveFileInfo env fileId h fn s) k =
     (if k = hashKey fileId then Some h else if k = filenameKey fileId then Some fn
      else redis_get s k)"
  by (simp add: redis_get_def saveFileInfo_redisDb saveFileInfo_fields db_get_expire db_get_set
      hashKey_neq_filenameKey)

lemma saveFileInfo_db_get:
  "db_get (clock s) (redisDb (saveFileInfo env fileId h fn s)) k =
     (if k = hashKey fileId then Some h else if k = filenameKey fileId then Some fn
      else db_get (clock s) (redisDb s) k)"
  using saveFileInfo_get [of env fileId h fn s k] by (simp add: redis_get_def saveFileInfo_fields)

lemma saveFileInfo_ttl:
  "db_ttl (clock s) (redisDb (saveFileInfo env fileId h fn s)) (filenameKey fileId)
     = Some (clock s + 2592000000)"
  by (simp add: saveFileInfo_redisDb db_ttl_expire [where v = fn] db_get_set)

lemma uploadFile_exists:
  assumes "decodeURIComponent env originalname = Some fn" "cbf_has env (bloomFilter s) buf"
  shows "uploadFile env uuid (Some (originalname, buf)) s =
     (Inr (JObject [(''fileId'', JString uuid), (''fileName'', JString fn)]),
      logEvent (FilterHas buf) (saveFileInfo env uuid (sha256hex env buf) fn s))"
  using assms
  by (simp add: uploadFile_def Let_def filter_has_def calculateFileHash_def saveFileInfo_fields
      logEvent_def)

lemma uploadFile_written:
  assumes "decodeURIComponent env originalname = Some fn" "\<not> cbf_has env (bloomFilter s) buf"
    "diskError s = None"
  shows "uploadFile env uuid (Some (originalname, buf)) s =
     (Inr (JObject [(''fileId'', JString uuid), (''fileName'', JString fn)]),
      (let s1 = saveFileInfo env uuid (sha256hex env buf) fn s;
           s2 = logEvent (FsWriteFile (sha256hex env buf @ extname env fn)) (logEvent (FilterHas buf) s1);
           s3 = s2\<lparr>uploads := putEntry (sha256hex env buf @ extname env fn) buf (uploads s)\<rparr>;
           s4 = filter_add env buf s3
       in saveBloomFilter (bloomFilter s4) s4))"
  using assms
  by (simp add: uploadFile_def Let_def filter_has_def calculateFileHash_def saveFileInfo_fields
      logEvent_def fs_writeFile_def generateUniqueFilename_def)

lemma uploadFile_write_failed:
  assumes "decodeURIComponent env originalname = Some fn" "\<not> cbf_has env (bloomFilter s) buf"
    "diskError s = Some err"
  shows "uploadFile env uuid (Some (originalname, buf)) s =
     (Inl (wrapError err),
      logEvent (FsWriteFile (sha256hex env buf @ extname env fn))
        (logEvent (FilterHas buf) (saveFileInfo env uuid (sha256hex env buf) fn s)))"
  using assms
  by (simp add: uploadFile_def Let_def filter_has_def calculateFileHash_def saveFileInfo_fields
      logEvent_def fs_writeFile_def generateUniqueFilename_def)

lemma uploadFile_written_state:
  assumes "decodeURIComponent env originalname = Some fn" "\<not> cbf_has env (bloomFilter s) buf"
    "diskError s = None"
  shows "clock (snd (uploadFile env uuid (Some (originalname, buf)) s)) = clock s"
    "uploads (snd (uploadFile env uuid (Some (originalname, buf)) s)) =
       putEntry (sha256hex env buf @ extname env fn) buf (uploads s)"
    "bloomFilter (snd (uploadFile env uuid (Some (originalname, buf)) s)) = cbf_add env (bloomFilter s) buf"
    "savedFilter (snd (uploadFile env uuid (Some (originalname, buf)) s)) =
       Some (serialize (cbf_add env (bloomFilter s) buf))"
    "diskError (snd (uploadFile env uuid (Some (originalname, buf)) s)) = diskError s"
    "s3Error (snd (uploadFile env uuid (Some (originalname, buf)) s)) = s3Error s"
    "bucketObjects (snd (uploadFile env uuid (Some (originalname, buf)) s)) = bucketObjects s"
    "redis_get (snd (uploadFile env uuid (Some (originalname, buf)) s)) k =
       (if k = hashKey uuid then Some (sha256hex env buf)
        else if k = filenameKey uuid then Some fn else redis_get s k)"
  by (simp_all add: uploadFile_written [OF assms] Let_def saveBloomFilter_def filter_add_def
      logEvent_def saveFileInfo_fields redis_get_def saveFileInfo_db_get)

lemma uploadFile_exists_state:
  assumes "decodeURIComponent env originalname = Some fn" "cbf_has env (bloomFilter s) buf"
  shows "clock (snd (uploadFile env uuid (Some (originalname, buf)) s)) = clock s"
    "diskError (snd (uploadFile env uuid (Some (originalname, buf)) s)) = diskError s"
    "s3Error (snd (uploadFile env uuid (Some (originalname, buf)) s)) = s3Error s"
    "bucketObjects (snd (uploadFile env uuid (Some (originalname, buf)) s)) = bucketObjects s"
    "redis_get (snd (uploadFile env uuid (Some (originalname, buf)) s)) k =
       (if k = hashKey uuid then Some (sha256hex env buf)
        else if k = filenameKey uuid then Some fn else redis_get s k)"
  by (simp_all add: uploadFile_exists [OF assms] logEvent_def saveFileInfo_fields redis_get_def
      saveFileInfo_db_get)

lemma map_fst_putEntry:
  "map fst (putEntry name content entries) =
     (if name \<in> set (map fst entries) then map fst entries else map fst entries @ [name])"
  by (induction entries) (auto simp: putEntry_def split: prod.splits)

lemma uploadFile_duplicate:
  assumes "decodeURIComponent env originalname = Some fn" "cbf_has env (bloomFilter s) buf"
  shows "uploads (snd (uploadFile env uuid (Some (originalname, buf)) s)) = uploads s"
    "bloomFilter (snd (uploadFile env uuid (Some (originalname, buf)) s)) = bloomFilter s"
    "savedFilter (snd (uploadFile env uuid (Some (originalname, buf)) s)) = savedFilter s"
    "trace (snd (uploadFile env uuid (Some (originalname, buf)) s)) = trace s @
       [RedisSet (hashKey uuid) (sha256hex env buf), RedisSetExpire (hashKey uuid) 2592000,
        RedisSet (filenameKey uuid) fn, RedisSetExpire (filenameKey uuid) 2592000, FilterHas buf]"
  by (simp_all add: uploadFile_exists [OF assms] logEvent_def saveFileInfo_fields)


lemma uploadFile_success:
  assumes "fst (uploadFile env uuid (Some (originalname, buf)) s) = Inr r"
  shows "\<exists>fn. decodeURIComponent env originalname = Some fn
           \<and> r = JObject [(''fileId'', JString uuid), (''fileName'', JString fn)]"
proof (cases "decodeURIComponent env originalname")
  case None
  with assms show ?thesis by (simp add: uploadFile_def)
next
  case (Some fn)
  show ?thesis
  proof (cases "cbf_has env (bloomFilter s) buf")
    case True
    with assms Some show ?thesis by (simp add: uploadFile_exists)
  next
    case False
    with assms Some show ?thesis
      by (cases "diskError s") (simp_all add: uploadFile_written uploadFile_write_failed)
  qed
qed

lemma saveFileInfo_unawaited_closed:
  "\<not> isOpen c \<Longrightarrow> saveFileInfo_unawaited fileId h fn c = c"
  by (simp add: saveFileInfo_unawaited_def sendCommand_def)

lemma saveFileInfo_unawaited_open:
  "isOpen c \<Longrightarrow>
   saveFileInfo_unawaited fileId h fn c =
     c\<lparr>commandQueue := commandQueue c @
         [CmdSet (hashKey fileId) h, CmdExpire (hashKey fileId) 2592000,
          CmdSet (filenameKey fileId) fn, CmdExpire (filenameKey fileId) 2592000]\<rparr>"
  by (simp add: saveFileInfo_unawaited_def sendCommand_def)

text \<open>Performing the four queued commands of a FileRecord is \<open>saveFileInfo\<close>.\<close>

lemma perform_record:
  "foldl (perform env) s
     [CmdSet (hashKey fileId) h, CmdExpire (hashKey fileId) 2592000,
      CmdSet (filenameKey fileId) fn, CmdExpire (filenameKey fileId) 2592000]
   = saveFileInfo env fileId h fn s"
  by (simp add: saveFileInfo_def Let_def)

lemma uploadFile_eventLoop_exists:
  assumes "decodeURIComponent env originalname = Some fn" "cbf_has env (bloomFilter s) buf"
  shows "uploadFile_eventLoop env uuid (Some (originalname, buf)) c s =
     (Inr (JObject [(''fileId'', JString uuid), (''fileName'', JString fn)]),
      saveFileInfo_unawaited uuid (sha256hex env buf) fn c,
      logEvent (FilterHas buf) s)"
  using assms
  by (simp add: uploadFile_eventLoop_def Let_def filter_has_def calculateFileHash_def)

lemma uploadFile_eventLoop_closed:
  assumes "decodeURIComponent env originalname = Some fn" "\<not> cbf_has env (bloomFilter s) buf"
    "diskError s = None" "\<not> isOpen c" "commandQueue c = []"
  shows "uploadFile_eventLoop env uuid (Some (originalname, buf)) c s =
     (Inr (JObject [(''fileId'', JString uuid), (''fileName'', JString fn)]),
      c\<lparr>commandQueue := [], isOpen := True\<rparr>,
      (let s1 = logEvent (FsWriteFile (sha256hex env buf @ extname env fn)) (logEvent (FilterHas buf) s);
           s2 = s1\<lparr>uploads := putEntry (sha256hex env buf @ extname env fn) buf (uploads s)\<rparr>;
           s3 = filter_add env buf s2
       in saveBloomFilter (bloomFilter s3) s3))"
  using assms
  by (simp add: uploadFile_eventLoop_def Let_def filter_has_def calculateFileHash_def
      saveFileInfo_unawaited_closed eventLoopTurn_def connect_def fs_writeFile_def logEvent_def
      generateUniqueFilename_def)

lemma saveFileInfo_state:
  "saveFileInfo env fileId h fn s =
     s\<lparr>redisDb :=
         db_expire (clock s)
           (db_set (db_expire (clock s) (db_set (redisDb s) (hashKey fileId) h) (hashKey fileId) 2592000)
              (filenameKey fileId) fn)
           (filenameKey fileId) 2592000,
       trace := trace s @
         [RedisSet (hashKey fileId) h, RedisSetExpire (hashKey fileId) 2592000,
          RedisSet (filenameKey fileId) fn, RedisSetExpire (filenameKey fileId) 2592000]\<rparr>"
  by (simp add: saveFileInfo_def redis_set_def setExpire_def logEvent_def Let_def)

lemma queue_reset: "commandQueue c = [] \<Longrightarrow> c\<lparr>commandQueue := []\<rparr> = c"
  by (cases c) simp

text \<open>
  With the client open and nothing in its queue, the upload as the event loop runs it,
  followed by a turn of the loop, returns what \<open>uploadFile\<close> returns and leaves the world
  that \<open>uploadFile\<close> leaves, but for the place of the check of the index in the log.
\<close>

lemma uploadFile_eventLoop_settled:
  assumes "isOpen c" "commandQueue c = []"
  shows "let (r, c', s') = uploadFile_eventLoop env uuid upl c s;
             (c'', s'') = eventLoopTurn env c' s';
             (r0, s0) = uploadFile env uuid upl s
         in r = r0 \<and> c'' = c \<and> s''\<lparr>trace := []\<rparr> = s0\<lparr>trace := []\<rparr>"
proof (cases upl)
  case None
  then show ?thesis
    using assms by (simp add: uploadFile_def uploadFile_eventLoop_def eventLoopTurn_def queue_reset)
next
  case (Some p)
  obtain originalname buf where p: "p = (originalname, buf)" by (cases p)
  show ?thesis
  proof (cases "decodeURIComponent env originalname")
    case None
    then show ?thesis
      using assms
      by (simp add: Some p uploadFile_def uploadFile_eventLoop_def eventLoopTurn_def queue_reset)
  next
    case d: (Some fn)
    let ?cmds = "[CmdSet (hashKey uuid) (sha256hex env buf), CmdExpire (hashKey uuid) 2592000,
        CmdSet (filenameKey uuid) fn, CmdExpire (filenameKey uuid) 2592000]"
    have q: "saveFileInfo_unawaited uuid (sha256hex env buf) fn c = c\<lparr>commandQueue := ?cmds\<rparr>"
      using assms by (simp add: saveFileInfo_unawaited_open)
    have turn: "eventLoopTurn env (c\<lparr>commandQueue := ?cmds\<rparr>) st =
        (c, saveFileInfo env uuid (sha256hex env buf) fn st)" for st
      using assms(2) by (simp add: eventLoopTurn_def perform_record queue_reset del: foldl_Cons)
    have idle: "eventLoopTurn env c st = (c, st)" for st
      using assms(2) by (simp add: eventLoopTurn_def queue_reset)
    show ?thesis
    proof (cases "cbf_has env (bloomFilter s) buf")
      case True
      show ?thesis
        unfolding Some p uploadFile_exists [OF d True] uploadFile_eventLoop_exists [OF d True] q
        by (simp add: turn saveFileInfo_state logEvent_def)
    next
      case False
      show ?thesis
      proof (cases "diskError s")
        case None
        have "uploadFile_eventLoop env uuid (Some (originalname, buf)) c s =
            (Inr (JObject [(''fileId'', JString uuid), (''fileName'', JString fn)]), c,
             (let s1 = saveFileInfo env uuid (sha256hex env buf) fn (logEvent (FilterHas buf) s);
                  s2 = (logEvent (FsWriteFile (sha256hex env buf @ extname env fn)) s1)
                         \<lparr>uploads := putEntry (sha256hex env buf @ extname env fn) buf (uploads s)\<rparr>;
                  s3 = filter_add env buf s2
              in saveBloomFilter (bloomFilter s3) s3))"
          using d False None assms(1)
          by (simp add: uploadFile_eventLoop_def Let_def filter_has_def calculateFileHash_def q turn
              fs_writeFile_def generateUniqueFilename_def saveFileInfo_fields logEvent_def connect_def)
        then show ?thesis
          unfolding Some p uploadFile_written [OF d False None]
          by (simp add: idle Let_def saveFileInfo_state logEvent_def filter_add_def saveBloomFilter_def)
      next
        case e: (Some err)
        have "uploadFile_eventLoop env uuid (Some (originalname, buf)) c s =
            (Inl (wrapError err), c,
             logEvent (FsWriteFile (sha256hex env buf @ extname env fn))
               (saveFileInfo env uuid (sha256hex env buf) fn (logEvent (FilterHas buf) s)))"
          using d False e
          by (simp add: uploadFile_eventLoop_def Let_def filter_has_def calculateFileHash_def q turn
              fs_writeFile_def generateUniqueFilename_def saveFileInfo_fields logEvent_def)
        then show ?thesis
          unfolding Some p uploadFile_write_failed [OF d False e]
          by (simp add: idle saveFileInfo_state logEvent_def)
      qed
    qed
  qed
qed

text \<open>
  C1, as the code has it. A successful upload returns an object with the generated
  \<open>fileId\<close> and, in the field \<open>fileName\<close>, the percent-decoded original file name, and
  with nothing else: there is no field \<open>alreadyExisted\<close>, on a first upload as on a
  repeated one.
\<close>

theorem uploadFile_result:
  assumes "fst (uploadFile env uuid (Some (originalname, buf)) s) = Inr r"
  shows "\<exists>fn. decodeURIComponent env originalname = Some fn
           \<and> r = JObject [(''fileId'', JString uuid), (''fileName'', JString fn)]
           \<and> jsField r ''fileId'' = JString uuid
           \<and> jsField r ''fileName'' = JString fn
           \<and> jsField r ''alreadyExisted'' = JUndefined"
  using uploadFile_success [OF assms] by (auto simp: jsField_def)


subsection \<open>Download\<close>

lemma startsWith_iff: "startsWith name s \<longleftrightarrow> take (length s) name = s"
  by (induction name s rule: startsWith.induct) auto

lemma startsWith_append [simp]: "startsWith (s @ t) s"
  by (simp add: startsWith_iff)

lemma blobName_not_null: "blobName name \<Longrightarrow> \<not> startsWith name ''null''"
  by (cases name) (auto simp: blobName_def isHexDigit_def)

lemma find_None_all: "find P xs = None \<longleftrightarrow> (\<forall>x\<in>set xs. \<not> P x)"
  by (induction xs) auto

lemma find_Some_mem: "find P xs = Some x \<Longrightarrow> x \<in> set xs \<and> P x"
  by (induction xs) (auto split: if_splits)

lemma download_no_match:
  assumes "find (\<lambda>file. startsWith file (toStr (redis_get s (hashKey fileId)))) (fs_readdir s) = None"
  shows "download env way fileId type ident s = (Inl (JsError ''Error'' ''File not found''), s)"
  using assms by (simp add: download_def Let_def)

lemma download_unresolved:
  assumes "redis_get s (hashKey fileId) = None" and "\<forall>name\<in>set (fs_readdir s). blobName name"
  shows "download env way fileId type ident s = (Inl (JsError ''Error'' ''File not found''), s)"
proof -
  have "\<forall>name\<in>set (fs_readdir s). \<not> startsWith name (toStr (redis_get s (hashKey fileId)))"
    using assms blobName_not_null by (fastforce simp: toStr_def)
  then show ?thesis
    by (intro download_no_match) (simp add: find_None_all)
qed

lemma download_match:
  assumes "find (\<lambda>file. startsWith file (toStr (redis_get s (hashKey fileId)))) (fs_readdir s) = Some matched"
  shows "download env way fileId type ident s =
     (if way = ''local'' then localDownload (pathJoin (uploadPath env) matched) matched fileId s
      else if way = ''staging-area'' then
        (if falsy type \<or> falsy ident
         then (Inl (JsError ''Error''
                 ''Type and id query parameters are required for staging-area download.''), s)
         else stagingAreaDownload env (toStr type) matched fileId (toStr ident) s)
      else if way = ''google-cloud'' then (Inr JUndefined, s)
      else (Inl (JsError ''Error'' ''Invalid download way.''), s))"
  using assms by (simp add: download_def Let_def)

lemma matched_content:
  assumes "find P (fs_readdir s) = Some matched"
  shows "\<exists>content. fs_readFile s matched = Some content"
proof -
  have "matched \<in> fst ` set (uploads s)"
    using find_Some_mem [OF assms] by (simp add: fs_readdir_def)
  then show ?thesis
    by (cases "map_of (uploads s) matched") (auto simp: fs_readFile_def map_of_eq_None_iff)
qed

text \<open>
  C9. When no entry of the upload directory starts with the hash stored for the
  identifier, the download fails with \<open>File not found\<close> whatever the way, the type and the
  id are, and leaves the world as it was. An identifier with no stored hash is such a case
  in every directory that holds blobs only, since the text \<open>null\<close> the code then searches
  for is no prefix of a digest.
\<close>

theorem download_not_found:
  assumes "(\<forall>file\<in>set (fs_readdir s). \<not> startsWith file (toStr (redis_get s (hashKey fileId))))
         \<or> (redis_get s (hashKey fileId) = None \<and> (\<forall>file\<in>set (fs_readdir s). blobName file))"
  shows "download env way fileId type ident s = (Inl (JsError ''Error'' ''File not found''), s)"
proof -
  have "\<forall>file\<in>set (fs_readdir s). \<not> startsWith file (toStr (redis_get s (hashKey fileId)))"
    using assms blobName_not_null by (fastforce simp: toStr_def)
  then show ?thesis
    by (intro download_no_match) (simp add: find_None_all)
qed

text \<open>
  C4, as the code has it. Where an entry starts with the stored hash, the way decides:
  \<open>local\<close> returns the content of the entry as a stream with the stored file name;
  \<open>staging-area\<close> fails when the type or the id is missing or empty, fails when the type
  is neither \<open>user\<close> nor \<open>room\<close>, fails with the error of the archive when the archive
  refuses the object, and otherwise puts the content under \<open>type/id/entry\<close> and returns the
  location; \<open>google-cloud\<close> returns \<open>undefined\<close> and throws nothing; every other way
  fails with \<open>Invalid download way.\<close>
\<close>

theorem download_dispatch:
  assumes "find (\<lambda>file. startsWith file (toStr (redis_get s (hashKey fileId)))) (fs_readdir s) = Some matched"
  shows "\<exists>content. fs_readFile s matched = Some content
     \<and> (way = ''local'' \<longrightarrow>
          download env way fileId type ident s =
            (Inr (JObject [(''stream'', JStream content),
                           (''filename'', jsOfReply (redis_get s (filenameKey fileId)))]), s))
     \<and> (way = ''staging-area'' \<and> (falsy type \<or> falsy ident) \<longrightarrow>
          download env way fileId type ident s =
            (Inl (JsError ''Error''
               ''Type and id query parameters are required for staging-area download.''), s))
     \<and> (way = ''staging-area'' \<and> \<not> falsy type \<and> \<not> falsy ident
          \<and> toStr type \<noteq> ''user'' \<and> toStr type \<noteq> ''room'' \<longrightarrow>
          download env way fileId type ident s =
            (Inl (JsError ''Error'' (''[S3Service] Invalid type: '' @ toStr type)), s))
     \<and> (\<forall>err. way = ''staging-area'' \<and> \<not> falsy type \<and> \<not> falsy ident
          \<and> (toStr type = ''user'' \<or> toStr type = ''room'') \<and> s3Error s = Some err \<longrightarrow>
          download env way fileId type ident s = (Inl err, s))
     \<and> (way = ''staging-area'' \<and> \<not> falsy type \<and> \<not> falsy ident
          \<and> (toStr type = ''user'' \<or> toStr type = ''room'') \<and> s3Error s = None \<longrightarrow>
          (let key = toStr type @ ''/'' @ toStr ident @ ''/'' @ matched;
               (r, s') = download env way fileId type ident s
           in r = Inr (JObject [(''fileId'', JString fileId),
                                (''filename'', jsOfReply (redis_get s (filenameKey fileId))),
                                (''location'', JString (s3Location env key))])
            \<and> map_of (bucketObjects s') key =
                Some (content, encodeURIComponent env (toStr (redis_get s (filenameKey fileId))))
            \<and> uploads s' = uploads s \<and> redisDb s' = redisDb s))
     \<and> (way = ''google-cloud'' \<longrightarrow> download env way fileId type ident s = (Inr JUndefined, s))
     \<and> (way \<noteq> ''local'' \<and> way \<noteq> ''staging-area'' \<and> way \<noteq> ''google-cloud'' \<longrightarrow>
          download env way fileId type ident s = (Inl (JsError ''Error'' ''Invalid download way.''), s))"
proof -
  obtain content where c: "fs_readFile s matched = Some content"
    using matched_content [OF assms] by blast
  have loc: "localDownload p matched fileId s =
      (Inr (JObject [(''stream'', JStream content),
                     (''filename'', jsOfReply (redis_get s (filenameKey fileId)))]), s)" for p
    by (simp add: localDownload_def c)
  have st: "stagingAreaDownload env t matched fileId i s =
      (case generateS3Key t i matched of
         Inl err \<Rightarrow> (Inl err, s)
       | Inr key \<Rightarrow>
           (case s3Error s of
              Some err \<Rightarrow> (Inl err, s)
            | None \<Rightarrow>
                (Inr (JObject [(''fileId'', JString fileId),
                               (''filename'', jsOfReply (redis_get s (filenameKey fileId))),
                               (''location'', JString (s3Location env key))]),
                 logEvent (S3Upload key)
                   (s\<lparr>bucketObjects :=
                        (key, content, encodeURIComponent env (toStr (redis_get s (filenameKey fileId))))
                        # filter (\<lambda>(k, b, n). k \<noteq> key) (bucketObjects s)\<rparr>))))" for t i
    by (simp add: stagingAreaDownload_def s3_uploadFile_def c Let_def s3Location_def
        split: sum.splits option.splits)
  show ?thesis
    apply (rule exI [of _ content])
    apply (simp only: download_match [OF assms] loc st)
    apply (auto simp: c generateS3Key_def Let_def logEvent_def split: option.splits)
    done
qed

subsection \<open>Delete\<close>

lemma foldl_unlink_fields:
  "uploads (foldl (\<lambda>st name. fs_unlink name st) s names) = filter (\<lambda>(n, c). n \<notin> set names) (uploads s)"
  "redisDb (foldl (\<lambda>st name. fs_unlink name st) s names) = redisDb s"
  "clock (foldl (\<lambda>st name. fs_unlink name st) s names) = clock s"
  "bloomFilter (foldl (\<lambda>st name. fs_unlink name st) s names) = bloomFilter s"
  "trace (foldl (\<lambda>st name. fs_unlink name st) s names) = trace s @ map FsUnlink names"
  by (induction names arbitrary: s)
     (auto simp: fs_unlink_def logEvent_def intro!: filter_cong)

lemma startsWith_includesStr: "startsWith z s \<Longrightarrow> includesStr z s"
  by (cases z; cases s) simp_all

lemma includesStr_mid: "includesStr (x @ s @ y) s"
  by (induction x) (simp_all add: startsWith_includesStr)

lemma deleteFile_effect:
  assumes "find (\<lambda>file. includesStr file (toStr (redis_get s (hashKey fileId)))) (fs_readdir s) = Some matched"
    and "fs_readFile s matched = Some content"
  shows "fst (deleteFile env fileId s) = Inr (JObject [(''message'', JString ''File deleted successfully'')])"
    "bloomFilter (snd (deleteFile env fileId s)) = cbf_remove env (bloomFilter s) content"
    "uploads (snd (deleteFile env fileId s)) = filter (\<lambda>(n, c). n \<noteq> matched) (uploads s)"
    "savedFilter (snd (deleteFile env fileId s)) = Some (serialize (cbf_remove env (bloomFilter s) content))"
    "clock (snd (deleteFile env fileId s)) = clock s"
    "redisDb (snd (deleteFile env fileId s)) =
       deleteFileInfoWithSameHash_loop (clock s) (redis_get s (hashKey fileId)) 0
         (db_del (redisDb s) [hashKey fileId, filenameKey fileId])"
    "trace (snd (deleteFile env fileId s)) = trace s @
       [FilterRemove content, FsUnlink matched, RedisSaveBloomFilter,
        RedisDeleteFileInfoByFileId fileId,
        RedisDeleteFileInfoWithSameHash (redis_get s (hashKey fileId))]"
  using assms
  by (simp_all add: deleteFile_def Let_def filter_remove_def fs_unlink_def saveBloomFilter_def
      deleteFileInfoByFileId_def deleteFileInfoWithSameHash_def logEvent_def)

text \<open>
  The FileRecords after a deletion that finds an entry for the stored hash: those of every
  identifier with that hash are gone, and those of the other identifiers are as they were.
\<close>

lemma deleteFile_records:
  assumes "redis_get s (hashKey fileId) = Some h"
    and "find (\<lambda>file. includesStr file h) (fs_readdir s) = Some matched"
  shows "redis_get s (hashKey other) = Some h \<Longrightarrow>
           redis_get (snd (deleteFile env fileId s)) (hashKey other) = None
         \<and> redis_get (snd (deleteFile env fileId s)) (filenameKey other) = None"
    and "redis_get s (hashKey other) \<noteq> Some h \<Longrightarrow>
           redis_get (snd (deleteFile env fileId s)) (hashKey other) = redis_get s (hashKey other)
         \<and> redis_get (snd (deleteFile env fileId s)) (filenameKey other) = redis_get s (filenameKey other)"
proof -
  obtain content where c: "fs_readFile s matched = Some content"
    using matched_content [OF assms(2)] by blast
  let ?s' = "snd (deleteFile env fileId s)"
  let ?db1 = "db_del (redisDb s) [hashKey fileId, filenameKey fileId]"
  have m: "find (\<lambda>file. includesStr file (toStr (redis_get s (hashKey fileId)))) (fs_readdir s) = Some matched"
    using assms(1,2) by (simp add: toStr_def)
  note eff = deleteFile_effect [OF m c, of env]
  have db: "redisDb ?s' = deleteFileInfoWithSameHash_loop (clock s) (Some h) 0 ?db1"
    using eff(6) assms(1) by simp
  show "redis_get ?s' (hashKey other) = None \<and> redis_get ?s' (filenameKey other) = None"
    if "redis_get s (hashKey other) = Some h"
  proof (cases "other = fileId")
    case True
    have "db_get (clock s) ?db1 (hashKey fileId) = None" "db_get (clock s) ?db1 (filenameKey fileId) = None"
      by (simp_all add: db_get_del)
    then show ?thesis
      using True by (simp add: redis_get_def eff(5) db sameHash_loop_absent)
  next
    case False
    have "db_get (clock s) ?db1 (hashKey other) = Some h"
      using that False
      by (simp add: db_get_del redis_get_def hashKey_inj hashKey_neq_filenameKey)
    from sameHash_loop_deletes [OF this] show ?thesis
      by (simp add: redis_get_def eff(5) db)
  qed
  show "redis_get ?s' (hashKey other) = redis_get s (hashKey other)
      \<and> redis_get ?s' (filenameKey other) = redis_get s (filenameKey other)"
    if "redis_get s (hashKey other) \<noteq> Some h"
  proof -
    have ne: "other \<noteq> fileId" using that assms(1) by auto
    have keep: "k \<noteq> hashKey x \<and> k \<noteq> filenameKey x"
      if "k = hashKey other \<or> k = filenameKey other" "db_get (clock s) ?db1 (hashKey x) = Some h" for k x
    proof -
      have "db_get (clock s) (redisDb s) (hashKey x) = Some h"
        using that(2) by (simp add: db_get_del split: if_splits)
      then have "x \<noteq> other"
        using \<open>redis_get s (hashKey other) \<noteq> Some h\<close> by (auto simp: redis_get_def)
      then show ?thesis
        using that(1) hashKey_neq_filenameKey [of other x] hashKey_neq_filenameKey [of x other]
        by (auto simp: hashKey_inj filenameKey_inj)
    qed
    have "db_get (clock s) (deleteFileInfoWithSameHash_loop (clock s) (Some h) 0 ?db1) (hashKey other)
        = db_get (clock s) ?db1 (hashKey other)"
      by (rule sameHash_loop_other) (use keep in blast)
    moreover have "db_get (clock s) (deleteFileInfoWithSameHash_loop (clock s) (Some h) 0 ?db1) (filenameKey other)
        = db_get (clock s) ?db1 (filenameKey other)"
      by (rule sameHash_loop_other) (use keep in blast)
    ultimately show ?thesis
      using ne hashKey_neq_filenameKey [of fileId other] hashKey_neq_filenameKey [of other fileId]
      by (simp add: redis_get_def eff(5) db db_get_del hashKey_inj filenameKey_inj)
  qed
qed

text \<open>
  The name under which an upload writes a blob is the digest of the content followed by the
  extension of the decoded file name.
\<close>

lemma map_of_putEntry:
  "map_of (putEntry name content entries) name = Some content"
proof (cases "name \<in> set (map fst entries)")
  case True
  have "name \<in> set (map fst es) \<Longrightarrow>
      map_of (map (\<lambda>(n, c). if n = name then (n, content) else (n, c)) es) name = Some content"
    for es :: "(string \<times> bytes) list"
    by (induction es) auto
  with True show ?thesis by (simp only: putEntry_def if_True)
next
  case False
  then have "map_of entries name = None"
    by (simp add: map_of_eq_None_iff)
  with False show ?thesis by (simp add: putEntry_def map_add_def)
qed

lemma uploadFile_blob_name:
  assumes "decodeURIComponent env originalname = Some fn" "\<not> cbf_has env (bloomFilter s) buf"
    "diskError s = None"
  shows "fs_readFile (snd (uploadFile env uuid (Some (originalname, buf)) s))
           (generateUniqueFilename env fn (calculateFileHash env buf)) = Some buf"
  by (simp add: fs_readFile_def uploadFile_written_state [OF assms] generateUniqueFilename_def
      calculateFileHash_def map_of_putEntry)

lemma ex_digest:
  "sha256hex exEnv exBytes = exZeros @ ''3''" "sha256hex exEnv exOther = exZeros @ ''2''"
  by (simp_all add: exEnv_def exDigest_def exBytes_def exOther_def)

lemma ex_decode:
  "decodeURIComponent exEnv ''my%20notes.txt'' = Some ''my notes.txt''"
  "decodeURIComponent exEnv ''copy.txt'' = Some ''copy.txt''"
  "decodeURIComponent exEnv ''hi.md'' = Some ''hi.md''"
  by (simp_all add: exEnv_def)

lemma ex_extname:
  "extname exEnv ''my notes.txt'' = ''.txt''" "extname exEnv ''copy.txt'' = ''.txt''"
  "extname exEnv ''hi.md'' = ''.md''"
  by (simp_all add: exEnv_def)

lemma ex_indexes:
  "cbf_indexes exEnv (cbf_create exEnv) exBytes = [3, 4]"
  "cbf_indexes exEnv (cbf_create exEnv) exOther = [2, 3]"
  by (simp_all add: exEnv_def cbf_indexes_def cbf_create_def exBytes_def exOther_def upt_conv_Cons)

lemma ex_create: "cbfCounters (cbf_create exEnv) = [0, 0, 0, 0, 0, 0, 0, 0]"
  "cbfMaxCount (cbf_create exEnv) = 255"
  by (simp_all add: cbf_create_def exEnv_def numeral_eq_Suc)

lemma ex_fresh: "\<not> cbf_has exEnv (bloomFilter (exState now)) exBytes"
  by (simp add: exState_def cbf_has_def ex_indexes ex_create)

lemma ex_inRange: "inRange exEnv (bloomFilter (exState now)) exBytes"
  by (simp add: exState_def inRange_def ex_indexes ex_create)

lemma ex_filter1:
  "cbfCounters (cbf_add exEnv (cbf_create exEnv) exBytes) = [0, 0, 0, 1, 1, 0, 0, 0]"
  by (simp add: cbf_add_def ex_indexes ex_create increment_def)

lemma exState_fields:
  "clock (exState now) = now" "uploads (exState now) = []" "diskError (exState now) = None"
  "s3Error (exState now) = None" "bucketObjects (exState now) = []"
  "bloomFilter (exState now) = cbf_create exEnv" "trace (exState now) = []"
  "redis_get (exState now) k = (if k = ''session:42'' then Some ''alice'' else None)"
  by (simp_all add: exState_def redis_get_def db_get_Cons live_def)

lemma exTwoBlobs_fields:
  "clock exTwoBlobs = 0"
  "uploads exTwoBlobs = [(exSha256Abc @ ''.'' @ exSha256Hello, exAbc), (exSha256Hello @ ''.txt'', exHello)]"
  "redis_get exTwoBlobs ''file:id-2:hash'' = Some exSha256Hello"
  "redis_get exTwoBlobs ''file:id-2:filename'' = Some ''hello.txt''"
  "redis_get exTwoBlobs ''file:id-1:hash'' = Some exSha256Abc"
  by (simp_all add: exTwoBlobs_def exState_def redis_get_def db_get_Cons live_def)

lemma exTwoBlobs_prefix:
  "find (\<lambda>file. startsWith file exSha256Hello) (fs_readdir exTwoBlobs) = Some (exSha256Hello @ ''.txt'')"
  by (simp add: fs_readdir_def exTwoBlobs_fields) (simp add: exSha256Abc_def exSha256Hello_def)

lemma exTwoBlobs_substring:
  "find (\<lambda>file. includesStr file exSha256Hello) (fs_readdir exTwoBlobs)
     = Some (exSha256Abc @ ''.'' @ exSha256Hello)"
  using includesStr_mid [of "exSha256Abc @ ''.''" exSha256Hello "[]"]
  by (simp add: fs_readdir_def exTwoBlobs_fields)

text \<open>
  C7, where the code departs from it. The deletion looks for the stored hash anywhere in
  the name of an entry. In the directory \<open>exTwoBlobs\<close> the blob of \<open>id-2\<close> is the second
  entry, the one that starts with its hash, and the download delivers it; the deletion of
  \<open>id-2\<close> removes the first entry, whose extension is that hash, takes the content of that
  entry out of the index, and leaves the blob of \<open>id-2\<close> in the directory.
\<close>

theorem deleteFile_substring_match:
  "redis_get exTwoBlobs (hashKey ''id-2'') = Some exSha256Hello
   \<and> find (\<lambda>file. startsWith file exSha256Hello) (fs_readdir exTwoBlobs) = Some (exSha256Hello @ ''.txt'')
   \<and> download exEnv ''local'' ''id-2'' None None exTwoBlobs =
       (Inr (JObject [(''stream'', JStream exHello), (''filename'', JString ''hello.txt'')]), exTwoBlobs)
   \<and> fst (deleteFile exEnv ''id-2'' exTwoBlobs) =
       Inr (JObject [(''message'', JString ''File deleted successfully'')])
   \<and> fs_readdir (snd (deleteFile exEnv ''id-2'' exTwoBlobs)) = [exSha256Hello @ ''.txt'']
   \<and> bloomFilter (snd (deleteFile exEnv ''id-2'' exTwoBlobs)) = cbf_remove exEnv (bloomFilter exTwoBlobs) exAbc
   \<and> trace (snd (deleteFile exEnv ''id-2'' exTwoBlobs)) =
       [FilterRemove exAbc, FsUnlink (exSha256Abc @ ''.'' @ exSha256Hello), RedisSaveBloomFilter,
        RedisDeleteFileInfoByFileId ''id-2'', RedisDeleteFileInfoWithSameHash (Some exSha256Hello)]"
proof -
  have h: "redis_get exTwoBlobs (hashKey ''id-2'') = Some exSha256Hello"
    by (simp add: hashKey_def exTwoBlobs_fields)
  have n: "redis_get exTwoBlobs (filenameKey ''id-2'') = Some ''hello.txt''"
    by (simp add: filenameKey_def exTwoBlobs_fields)
  have p: "find (\<lambda>file. startsWith file (toStr (redis_get exTwoBlobs (hashKey ''id-2'')))) (fs_readdir exTwoBlobs)
      = Some (exSha256Hello @ ''.txt'')"
    using exTwoBlobs_prefix by (simp add: h toStr_def)
  have i: "find (\<lambda>file. includesStr file (toStr (redis_get exTwoBlobs (hashKey ''id-2'')))) (fs_readdir exTwoBlobs)
      = Some (exSha256Abc @ ''.'' @ exSha256Hello)"
    using exTwoBlobs_substring by (simp add: h toStr_def)
  have ne: "exSha256Hello @ ''.txt'' \<noteq> exSha256Abc @ ''.'' @ exSha256Hello"
    by (simp add: exSha256Abc_def exSha256Hello_def)
  have c1: "fs_readFile exTwoBlobs (exSha256Abc @ ''.'' @ exSha256Hello) = Some exAbc"
    by (simp add: fs_readFile_def exTwoBlobs_fields)
  have c2: "fs_readFile exTwoBlobs (exSha256Hello @ ''.txt'') = Some exHello"
    using ne by (simp add: fs_readFile_def exTwoBlobs_fields)
  have t: "trace exTwoBlobs = []" by (simp add: exTwoBlobs_def exState_def)
  have d: "download exEnv ''local'' ''id-2'' None None exTwoBlobs =
       (Inr (JObject [(''stream'', JStream exHello), (''filename'', JString ''hello.txt'')]), exTwoBlobs)"
    by (simp add: download_match [OF p] localDownload_def c2 n jsOfReply_def)
  have r: "fs_readdir (snd (deleteFile exEnv ''id-2'' exTwoBlobs)) = [exSha256Hello @ ''.txt'']"
    using ne by (simp add: deleteFile_effect [OF i c1] fs_readdir_def exTwoBlobs_fields(2))
  show ?thesis
    using h exTwoBlobs_prefix d r by (simp add: deleteFile_effect [OF i c1] t)
qed

lemma exSorted_fields:
  "clock exSorted = 0"
  "uploads exSorted = [(exSha256Hello @ ''.'' @ exSha256Abc, exHello), (exSha256Abc @ ''.txt'', exAbc)]"
  "redis_get exSorted ''file:id-2:hash'' = Some exSha256Abc"
  "redis_get exSorted ''file:id-2:filename'' = Some ''abc.txt''"
  "trace exSorted = []"
  by (simp_all add: exSorted_def exState_def redis_get_def db_get_Cons live_def)

lemma exSorted_prefix:
  "find (\<lambda>file. startsWith file exSha256Abc) (fs_readdir exSorted) = Some (exSha256Abc @ ''.txt'')"
  by (simp add: fs_readdir_def exSorted_fields) (simp add: exSha256Abc_def exSha256Hello_def)

lemma exSorted_substring:
  "find (\<lambda>file. includesStr file exSha256Abc) (fs_readdir exSorted)
     = Some (exSha256Hello @ ''.'' @ exSha256Abc)"
  using includesStr_mid [of "exSha256Hello @ ''.''" exSha256Abc "[]"]
  by (simp add: fs_readdir_def exSorted_fields)

lemma exSorted_filter:
  "cbfCounters (cbf_remove exEnv (bloomFilter exSorted) exHello) = [0, 0, 0, 1, 1, 0, 0, 0]"
  "cbf_indexes exEnv (bloomFilter exSorted) exAbc = [3, 4]"
  "cbf_indexes exEnv (bloomFilter exSorted) exHello = [5, 6]"
proof -
  have i: "cbf_indexes exEnv (cbf_create exEnv) exAbc = [3, 4]"
    "cbf_indexes exEnv (cbf_create exEnv) exHello = [5, 6]"
    by (simp_all add: exEnv_def cbf_indexes_def cbf_create_def exAbc_def exHello_def upt_conv_Cons)
  have b: "bloomFilter exSorted = cbf_add exEnv (cbf_add exEnv (cbf_create exEnv) exHello) exAbc"
    by (simp add: exSorted_def)
  show "cbfCounters (cbf_remove exEnv (bloomFilter exSorted) exHello) = [0, 0, 0, 1, 1, 0, 0, 0]"
    by (simp add: b cbf_remove_def cbf_add_fields i ex_create increment_def decrement_def)
  show "cbf_indexes exEnv (bloomFilter exSorted) exAbc = [3, 4]"
    by (simp add: b i)
  show "cbf_indexes exEnv (bloomFilter exSorted) exHello = [5, 6]"
    by (simp add: b i)
qed

text \<open>
  C2, where the code departs from it. In the directory \<open>exSorted\<close> the blob of \<open>id-2\<close>
  is the second entry, the one that starts with the hash stored for \<open>id-2\<close>, and a
  download of \<open>id-2\<close> delivers it. The deletion of \<open>id-2\<close> succeeds, and afterwards that
  blob is still in the directory and readable and its content is still in the index: what
  the deletion unlinked, and took out of the index, is the first entry, the blob of
  \<open>id-1\<close>, whose name contains the hash of \<open>id-2\<close> as its extension.
\<close>

theorem deleteFile_leaves_blob:
  "redis_get exSorted (hashKey ''id-2'') = Some exSha256Abc
   \<and> fs_readdir exSorted = [exSha256Hello @ ''.'' @ exSha256Abc, exSha256Abc @ ''.txt'']
   \<and> download exEnv ''local'' ''id-2'' None None exSorted =
       (Inr (JObject [(''stream'', JStream exAbc), (''filename'', JString ''abc.txt'')]), exSorted)
   \<and> fst (deleteFile exEnv ''id-2'' exSorted) =
       Inr (JObject [(''message'', JString ''File deleted successfully'')])
   \<and> fs_readdir (snd (deleteFile exEnv ''id-2'' exSorted)) = [exSha256Abc @ ''.txt'']
   \<and> fs_readFile (snd (deleteFile exEnv ''id-2'' exSorted)) (exSha256Abc @ ''.txt'') = Some exAbc
   \<and> cbf_has exEnv (bloomFilter (snd (deleteFile exEnv ''id-2'' exSorted))) exAbc
   \<and> \<not> cbf_has exEnv (bloomFilter (snd (deleteFile exEnv ''id-2'' exSorted))) exHello
   \<and> trace (snd (deleteFile exEnv ''id-2'' exSorted)) =
       [FilterRemove exHello, FsUnlink (exSha256Hello @ ''.'' @ exSha256Abc), RedisSaveBloomFilter,
        RedisDeleteFileInfoByFileId ''id-2'', RedisDeleteFileInfoWithSameHash (Some exSha256Abc)]"
proof -
  have h: "redis_get exSorted (hashKey ''id-2'') = Some exSha256Abc"
    by (simp add: hashKey_def exSorted_fields)
  have n: "redis_get exSorted (filenameKey ''id-2'') = Some ''abc.txt''"
    by (simp add: filenameKey_def exSorted_fields)
  have p: "find (\<lambda>file. startsWith file (toStr (redis_get exSorted (hashKey ''id-2'')))) (fs_readdir exSorted)
      = Some (exSha256Abc @ ''.txt'')"
    using exSorted_prefix by (simp add: h toStr_def)
  have i: "find (\<lambda>file. includesStr file (toStr (redis_get exSorted (hashKey ''id-2'')))) (fs_readdir exSorted)
      = Some (exSha256Hello @ ''.'' @ exSha256Abc)"
    using exSorted_substring by (simp add: h toStr_def)
  have ne: "exSha256Abc @ ''.txt'' \<noteq> exSha256Hello @ ''.'' @ exSha256Abc"
    by (simp add: exSha256Abc_def exSha256Hello_def)
  have c1: "fs_readFile exSorted (exSha256Hello @ ''.'' @ exSha256Abc) = Some exHello"
    by (simp add: fs_readFile_def exSorted_fields)
  have c2: "fs_readFile exSorted (exSha256Abc @ ''.txt'') = Some exAbc"
    using ne by (simp add: fs_readFile_def exSorted_fields)
  have l: "fs_readdir exSorted = [exSha256Hello @ ''.'' @ exSha256Abc, exSha256Abc @ ''.txt'']"
    by (simp add: fs_readdir_def exSorted_fields)
  have d: "download exEnv ''local'' ''id-2'' None None exSorted =
       (Inr (JObject [(''stream'', JStream exAbc), (''filename'', JString ''abc.txt'')]), exSorted)"
    by (simp add: download_match [OF p] localDownload_def c2 n jsOfReply_def)
  note eff = deleteFile_effect [OF i c1, of exEnv]
  have u: "uploads (snd (deleteFile exEnv ''id-2'' exSorted)) = [(exSha256Abc @ ''.txt'', exAbc)]"
    using ne by (simp add: eff exSorted_fields(2))
  have r: "fs_readdir (snd (deleteFile exEnv ''id-2'' exSorted)) = [exSha256Abc @ ''.txt'']"
    by (simp add: fs_readdir_def u)
  have f: "fs_readFile (snd (deleteFile exEnv ''id-2'' exSorted)) (exSha256Abc @ ''.txt'') = Some exAbc"
    by (simp add: fs_readFile_def u)
  have a: "cbf_has exEnv (bloomFilter (snd (deleteFile exEnv ''id-2'' exSorted))) exAbc"
    by (simp add: eff(2) cbf_has_def exSorted_filter)
  have b: "\<not> cbf_has exEnv (bloomFilter (snd (deleteFile exEnv ''id-2'' exSorted))) exHello"
    by (simp add: eff(2) cbf_has_def exSorted_filter)
  show ?thesis
    using h l d r f a b by (simp add: eff(1,7) exSorted_fields(5))
qed

lemma deleteAllFiles_effect:
  "fst (deleteAllFiles env s) = Inr (JObject [(''message'', JString ''All files deleted successfully'')])"
  "uploads (snd (deleteAllFiles env s)) = []"
  "bloomFilter (snd (deleteAllFiles env s)) = cbf_create env"
  "savedFilter (snd (deleteAllFiles env s)) = Some (serialize (cbf_create env))"
  "clock (snd (deleteAllFiles env s)) = clock s"
  "redisDb (snd (deleteAllFiles env s)) =
     deleteByPattern_loop (clock s) ''file:*:filename'' 0
       (deleteByPattern_loop (clock s) ''file:*:hash'' 0 (redisDb s))"
  "trace (snd (deleteAllFiles env s)) = trace s @ map FsUnlink (fs_readdir s) @
     [RedisSaveBloomFilter, RedisDeleteByPattern ''file:*:hash'', RedisDeleteByPattern ''file:*:filename'']"
proof -
  have empty: "filter (\<lambda>(n, c). n \<notin> fst ` set entries) entries = []" for entries :: "(string \<times> bytes) list"
    by (force simp: filter_empty_conv)
  show "fst (deleteAllFiles env s) = Inr (JObject [(''message'', JString ''All files deleted successfully'')])"
    by (simp add: deleteAllFiles_def Let_def)
  show "uploads (snd (deleteAllFiles env s)) = []"
    by (simp add: deleteAllFiles_def Let_def saveBloomFilter_def deleteByPattern_def logEvent_def
        foldl_unlink_fields fs_readdir_def empty)
  show "bloomFilter (snd (deleteAllFiles env s)) = cbf_create env"
    by (simp add: deleteAllFiles_def Let_def saveBloomFilter_def deleteByPattern_def logEvent_def)
  show "savedFilter (snd (deleteAllFiles env s)) = Some (serialize (cbf_create env))"
    by (simp add: deleteAllFiles_def Let_def saveBloomFilter_def deleteByPattern_def logEvent_def)
  show "clock (snd (deleteAllFiles env s)) = clock s"
    by (simp add: deleteAllFiles_def Let_def saveBloomFilter_def deleteByPattern_def logEvent_def
        foldl_unlink_fields)
  show "redisDb (snd (deleteAllFiles env s)) =
     deleteByPattern_loop (clock s) ''file:*:filename'' 0
       (deleteByPattern_loop (clock s) ''file:*:hash'' 0 (redisDb s))"
    by (simp add: deleteAllFiles_def Let_def saveBloomFilter_def deleteByPattern_def logEvent_def
        foldl_unlink_fields)
  show "trace (snd (deleteAllFiles env s)) = trace s @ map FsUnlink (fs_readdir s) @
     [RedisSaveBloomFilter, RedisDeleteByPattern ''file:*:hash'', RedisDeleteByPattern ''file:*:filename'']"
    by (simp add: deleteAllFiles_def Let_def saveBloomFilter_def deleteByPattern_def logEvent_def
        foldl_unlink_fields)
qed


subsection \<open>Blob names\<close>

lemma blobName_digest: "hexDigests env \<Longrightarrow> blobName (sha256hex env b @ ext)"
  by (simp add: hexDigests_def blobName_def)

lemma uploadFile_readdir:
  "set (fs_readdir (snd (uploadFile env uuid upl s))) \<subseteq>
     set (fs_readdir s) \<union> (case upl of None \<Rightarrow> {}
        | Some (originalname, buf) \<Rightarrow> {sha256hex env buf @ ext | ext. True})"
proof (cases upl)
  case None
  then show ?thesis by (simp add: uploadFile_def)
next
  case (Some p)
  obtain originalname buf where p: "p = (originalname, buf)" by (cases p)
  show ?thesis
  proof (cases "decodeURIComponent env originalname")
    case None
    then show ?thesis by (simp add: Some p uploadFile_def)
  next
    case d: (Some fn)
    show ?thesis
    proof (cases "cbf_has env (bloomFilter s) buf")
      case True
      then show ?thesis
        by (simp add: Some p fs_readdir_def uploadFile_duplicate [OF d True])
    next
      case False
      show ?thesis
      proof (cases "diskError s")
        case None
        then show ?thesis
          by (auto simp: Some p fs_readdir_def uploadFile_written_state [OF d False None]
              map_fst_putEntry simp flip: set_map split: if_splits)
      next
        case e: (Some err)
        then show ?thesis
          by (simp add: Some p fs_readdir_def uploadFile_write_failed [OF d False e] logEvent_def
              saveFileInfo_fields)
      qed
    qed
  qed
qed

lemma blobNames_kept:
  assumes "\<forall>name\<in>set (fs_readdir s). blobName name"
  shows "hexDigests env \<Longrightarrow> \<forall>name\<in>set (fs_readdir (snd (uploadFile env uuid upl s))). blobName name"
    "\<forall>name\<in>set (fs_readdir (snd (deleteFile env fileId s))). blobName name"
    "\<forall>name\<in>set (fs_readdir (snd (deleteAllFiles env s))). blobName name"
proof -
  show "\<forall>name\<in>set (fs_readdir (snd (uploadFile env uuid upl s))). blobName name" if "hexDigests env"
    using uploadFile_readdir [of env uuid upl s] assms blobName_digest [OF that]
    by (fastforce split: option.splits)
  show "\<forall>name\<in>set (fs_readdir (snd (deleteFile env fileId s))). blobName name"
  proof (cases "find (\<lambda>file. includesStr file (toStr (redis_get s (hashKey fileId)))) (fs_readdir s)")
    case None
    then show ?thesis using assms by (simp add: deleteFile_def Let_def)
  next
    case (Some matched)
    from matched_content [OF Some] obtain content where "fs_readFile s matched = Some content" by blast
    from deleteFile_effect(3) [OF Some this, of env] show ?thesis
      using assms by (auto simp: fs_readdir_def)
  qed
  show "\<forall>name\<in>set (fs_readdir (snd (deleteAllFiles env s))). blobName name"
    by (simp add: fs_readdir_def deleteAllFiles_effect)
qed

subsection \<open>The properties on the example inputs\<close>

lemma exStored_eq:
  "uploadFile exEnv ''id-1'' (Some (''my%20notes.txt'', exBytes)) (exState 0) =
     (Inr (JObject [(''fileId'', JString ''id-1''), (''fileName'', JString ''my notes.txt'')]), exStored)"
proof -
  have "diskError (exState 0) = None" by (simp add: exState_def)
  from uploadFile_written [OF ex_decode(1) ex_fresh this, of "''id-1''"]
  have "fst (uploadFile exEnv ''id-1'' (Some (''my%20notes.txt'', exBytes)) (exState 0)) =
      Inr (JObject [(''fileId'', JString ''id-1''), (''fileName'', JString ''my notes.txt'')])"
    by simp
  then show ?thesis by (simp add: exStored_def prod_eq_iff)
qed

lemma exStored_fields:
  "clock exStored = 0"
  "uploads exStored = [(exZeros @ ''3.txt'', exBytes)]"
  "bloomFilter exStored = cbf_add exEnv (cbf_create exEnv) exBytes"
  "diskError exStored = None"
  "s3Error exStored = None"
  "bucketObjects exStored = []"
  "redis_get exStored k =
     (if k = ''file:id-1:hash'' then Some (exZeros @ ''3'')
      else if k = ''file:id-1:filename'' then Some ''my notes.txt''
      else if k = ''session:42'' then Some ''alice'' else None)"
  unfolding exStored_def
  by (simp_all add: uploadFile_written_state [OF ex_decode(1) ex_fresh exState_fields(3)]
      exState_fields ex_digest ex_extname putEntry_def hashKey_def filenameKey_def)

lemma exStored_has: "cbf_has exEnv (bloomFilter exStored) exBytes"
  using cbf_has_add [OF ex_inRange [of 0]] by (simp add: exStored_fields exState_fields)

lemma exShared_fields:
  "clock exShared = 0"
  "uploads exShared = [(exZeros @ ''3.txt'', exBytes)]"
  "bloomFilter exShared = cbf_add exEnv (cbf_create exEnv) exBytes"
  "diskError exShared = None"
  "s3Error exShared = None"
  "bucketObjects exShared = []"
  "redis_get exShared k =
     (if k = ''file:id-2:hash'' then Some (exZeros @ ''3'')
      else if k = ''file:id-2:filename'' then Some ''copy.txt''
      else if k = ''file:id-1:hash'' then Some (exZeros @ ''3'')
      else if k = ''file:id-1:filename'' then Some ''my notes.txt''
      else if k = ''session:42'' then Some ''alice'' else None)"
  unfolding exShared_def
  by (simp_all add: uploadFile_exists_state [OF ex_decode(2) exStored_has]
      uploadFile_duplicate [OF ex_decode(2) exStored_has]
      exStored_fields ex_digest hashKey_def filenameKey_def)

lemma exShared_fresh: "\<not> cbf_has exEnv (bloomFilter exShared) exOther"
  by (simp add: exShared_fields cbf_has_def ex_indexes ex_filter1)

lemma exThree_fields:
  "clock exThree = 0"
  "uploads exThree = [(exZeros @ ''3.txt'', exBytes), (exZeros @ ''2.md'', exOther)]"
  "bloomFilter exThree = cbf_add exEnv (cbf_add exEnv (cbf_create exEnv) exBytes) exOther"
  "diskError exThree = None"
  "s3Error exThree = None"
  "bucketObjects exThree = []"
  "redis_get exThree k =
     (if k = ''file:id-3:hash'' then Some (exZeros @ ''2'')
      else if k = ''file:id-3:filename'' then Some ''hi.md''
      else if k = ''file:id-2:hash'' then Some (exZeros @ ''3'')
      else if k = ''file:id-2:filename'' then Some ''copy.txt''
      else if k = ''file:id-1:hash'' then Some (exZeros @ ''3'')
      else if k = ''file:id-1:filename'' then Some ''my notes.txt''
      else if k = ''session:42'' then Some ''alice'' else None)"
  unfolding exThree_def
  by (simp_all add: uploadFile_written_state [OF ex_decode(3) exShared_fresh exShared_fields(4)]
      exShared_fields ex_digest ex_extname putEntry_def hashKey_def filenameKey_def exZeros_def)

lemma exOrphan_fields:
  "uploads exOrphan = []"
  "redis_get exOrphan k =
     (if k = ''file:id-1:hash'' then Some (exZeros @ ''3'')
      else if k = ''file:id-1:filename'' then Some ''my notes.txt''
      else if k = ''session:42'' then Some ''alice'' else None)"
proof -
  have f: "\<not> cbf_has exEnv (bloomFilter exFullDisk) exBytes"
    using ex_fresh [of 0] by (simp add: exFullDisk_def)
  have e: "diskError exFullDisk = Some (JsError ''Error'' ''ENOSPC: no space left on device, write'')"
    by (simp add: exFullDisk_def)
  note up = uploadFile_write_failed [OF ex_decode(1) f e, of "''id-1''"]
  show "uploads exOrphan = []"
    by (simp add: exOrphan_def up logEvent_def saveFileInfo_fields) (simp add: exFullDisk_def exState_def)
  show "redis_get exOrphan k =
     (if k = ''file:id-1:hash'' then Some (exZeros @ ''3'')
      else if k = ''file:id-1:filename'' then Some ''my notes.txt''
      else if k = ''session:42'' then Some ''alice'' else None)"
    by (simp add: exOrphan_def up logEvent_def saveFileInfo_fields redis_get_def saveFileInfo_db_get
        ex_digest hashKey_def filenameKey_def)
       (simp add: exFullDisk_def exState_def db_get_Cons live_def)
qed

lemma exThree_readdir: "fs_readdir exThree = [exZeros @ ''3.txt'', exZeros @ ''2.md'']"
  by (simp add: fs_readdir_def exThree_fields)

lemma exThree_blobNames: "list_all blobName (fs_readdir exThree)"
  by (simp add: exThree_readdir blobName_def isHexDigit_def exZeros_def)

lemma exThree_find:
  "find (\<lambda>file. startsWith file (exZeros @ ''3'')) (fs_readdir exThree) = Some (exZeros @ ''3.txt'')"
  by (simp add: exThree_readdir exZeros_def)

lemma exThree_find_includes:
  "find (\<lambda>file. includesStr file (exZeros @ ''3'')) (fs_readdir exThree) = Some (exZeros @ ''3.txt'')"
  by (simp add: exThree_readdir exZeros_def)

lemma ex_distinct: "exBytes \<noteq> exOther"
  by (simp add: exBytes_def exOther_def)

lemma ex_filter_other:
  "cbfCounters (cbf_add exEnv (cbf_create exEnv) exOther) = [0, 0, 1, 1, 0, 0, 0, 0]"
  by (simp add: cbf_add_def ex_indexes ex_create increment_def)

lemma ex_collide: "cbf_indexes exEnv (cbf_create exEnv) exCollide = [3, 4]"
  by (simp add: exEnv_def cbf_indexes_def cbf_create_def exCollide_def upt_conv_Cons)

lemma ex_tiny_indexes:
  "cbf_indexes exTiny (cbf_create exTiny) exBytes = [3, 4]"
  "cbf_indexes exTiny (cbf_create exTiny) exOther = [2, 3]"
  by (simp_all add: exTiny_def exEnv_def cbf_indexes_def cbf_create_def exBytes_def exOther_def
      upt_conv_Cons)

lemma ex_tiny_create:
  "cbfCounters (cbf_create exTiny) = [0, 0, 0, 0, 0, 0, 0, 0]"
  "cbfMaxCount (cbf_create exTiny) = 1"
  by (simp_all add: cbf_create_def exTiny_def exEnv_def numeral_eq_Suc)

theorem cbf_no_false_negative_witness:
  "inRange exEnv (cbf_add exEnv (cbf_create exEnv) exOther) exBytes
   \<and> covers exEnv (cbf_add exEnv (cbf_create exEnv) exOther) [exOther]
   \<and> inContract exEnv (cbf_add exEnv (cbf_create exEnv) exOther) [exOther] [Add exBytes, Remove exOther]
   \<and> Remove exBytes \<notin> set [Remove exOther]
   \<and> cbf_has exEnv (cbf_add exEnv (cbf_add exEnv (cbf_create exEnv) exOther) exBytes) exBytes
   \<and> cbf_has exEnv
        (runOps exEnv (cbf_add exEnv (cbf_create exEnv) exOther) [Add exBytes, Remove exOther]) exBytes
   \<and> cbf_has exEnv
        (deserialize (serialize
           (runOps exEnv (cbf_add exEnv (cbf_create exEnv) exOther) [Add exBytes, Remove exOther])))
        exBytes"
proof -
  let ?f = "cbf_add exEnv (cbf_create exEnv) exOther"
  have i: "inRange exEnv ?f exBytes"
    by (simp add: inRange_def ex_indexes ex_filter_other cbf_add_fields(2) ex_create)
  have "list_all (\<lambda>i. i < length (cbfCounters (cbf_create exEnv))
          \<and> cbfCounters (cbf_create exEnv) ! i + count_list (cbf_indexes exEnv (cbf_create exEnv) exOther) i
              \<le> cbfMaxCount (cbf_create exEnv))
        (cbf_indexes exEnv (cbf_create exEnv) exOther)"
    by (simp add: ex_indexes ex_create)
  from covers_add [OF covers_Nil this] have c: "covers exEnv ?f [exOther]" .
  have h: "inContract exEnv ?f [exOther] [Add exBytes, Remove exOther]"
    by (simp add: ex_indexes ex_filter_other cbf_add_fields(2) ex_create)
  have r: "Remove exBytes \<notin> set [Remove exOther]" using ex_distinct by simp
  note t = cbf_no_false_negative [of exEnv ?f exBytes "[exOther]" "[Remove exOther]"]
  from t i have a: "cbf_has exEnv (cbf_add exEnv ?f exBytes) exBytes" by blast
  from t c h r have b: "cbf_has exEnv (runOps exEnv ?f [Add exBytes, Remove exOther]) exBytes"
    by blast
  from cbf_no_false_negative [of exEnv "runOps exEnv ?f [Add exBytes, Remove exOther]" exBytes "[]" "[]"] b
  have d: "cbf_has exEnv (deserialize (serialize (runOps exEnv ?f [Add exBytes, Remove exOther]))) exBytes"
    by blast
  show ?thesis
    using t i c h r d by blast
qed

text \<open>
  C5, as the claim has it, fails. After \<open>add\<close> of \<open>exBytes\<close>, a \<open>remove\<close> of
  \<open>exCollide\<close>, another content with the same positions that was never added, clears the
  counters of \<open>exBytes\<close>. And where the counters saturate at one, an \<open>add\<close> of \<open>exOther\<close>,
  which shares a position with \<open>exBytes\<close>, is clipped, and the \<open>remove\<close> of \<open>exOther\<close>
  that follows clears that position. In both histories \<open>exBytes\<close> was added, no
  \<open>remove\<close> of it was made, and \<open>has\<close> reports it absent.
\<close>

theorem cbf_false_negative_counterexample:
  "exCollide \<noteq> exBytes
   \<and> cbf_has exEnv (runOps exEnv (cbf_create exEnv) [Add exBytes]) exBytes
   \<and> Remove exBytes \<notin> set [Remove exCollide]
   \<and> \<not> cbf_has exEnv (runOps exEnv (cbf_create exEnv) [Add exBytes, Remove exCollide]) exBytes
   \<and> Remove exBytes \<notin> set [Add exOther, Remove exOther]
   \<and> \<not> cbf_has exTiny (runOps exTiny (cbf_create exTiny) [Add exBytes, Add exOther, Remove exOther]) exBytes"
proof -
  have n: "exCollide \<noteq> exBytes" by (simp add: exCollide_def exBytes_def)
  have a: "cbf_has exEnv (runOps exEnv (cbf_create exEnv) [Add exBytes]) exBytes"
    by (simp add: runOps_def cbf_has_def ex_indexes ex_filter1)
  have b: "\<not> cbf_has exEnv (runOps exEnv (cbf_create exEnv) [Add exBytes, Remove exCollide]) exBytes"
    by (simp add: runOps_def cbf_has_def cbf_remove_fields ex_indexes ex_collide ex_filter1 decrement_def)
  have c: "\<not> cbf_has exTiny (runOps exTiny (cbf_create exTiny) [Add exBytes, Add exOther, Remove exOther]) exBytes"
    by (simp add: runOps_def cbf_has_def cbf_remove_fields cbf_add_fields ex_tiny_indexes
        ex_tiny_create increment_def decrement_def)
  show ?thesis
    using n a b c ex_distinct by simp
qed

lemma exOpen_fields: "isOpen exOpen" "commandQueue exOpen = []"
  by (simp_all add: exOpen_def)

lemma exClosed_fields: "\<not> isOpen exClosed" "commandQueue exClosed = []"
  by (simp_all add: exClosed_def)

lemma exQueued:
  "uploadFile_eventLoop exEnv ''id-2'' (Some (''copy.txt'', exBytes)) exOpen exStored =
     (Inr (JObject [(''fileId'', JString ''id-2''), (''fileName'', JString ''copy.txt'')]),
      exOpen\<lparr>commandQueue :=
          [CmdSet (hashKey ''id-2'') (exZeros @ ''3''), CmdExpire (hashKey ''id-2'') 2592000,
           CmdSet (filenameKey ''id-2'') ''copy.txt'', CmdExpire (filenameKey ''id-2'') 2592000]\<rparr>,
      logEvent (FilterHas exBytes) exStored)"
  by (simp add: uploadFile_eventLoop_exists [OF ex_decode(2) exStored_has]
      saveFileInfo_unawaited_open exOpen_fields ex_digest)

lemma exQueued_turn:
  "snd (eventLoopTurn exEnv
          (exOpen\<lparr>commandQueue :=
              [CmdSet (hashKey ''id-2'') (exZeros @ ''3''), CmdExpire (hashKey ''id-2'') 2592000,
               CmdSet (filenameKey ''id-2'') ''copy.txt'', CmdExpire (filenameKey ''id-2'') 2592000]\<rparr>)
          (logEvent (FilterHas exBytes) exStored))
     = saveFileInfo exEnv ''id-2'' (exZeros @ ''3'') ''copy.txt'' (logEvent (FilterHas exBytes) exStored)"
  by (simp add: eventLoopTurn_def perform_record del: foldl_Cons)

lemma exLost:
  "uploadFile_eventLoop exEnv ''id-1'' (Some (''my%20notes.txt'', exBytes)) exClosed (exState 0) =
     (Inr (JObject [(''fileId'', JString ''id-1''), (''fileName'', JString ''my notes.txt'')]),
      exOpen,
      saveBloomFilter (cbf_add exEnv (cbf_create exEnv) exBytes)
        (filter_add exEnv exBytes
          ((logEvent (FsWriteFile (exZeros @ ''3.txt'')) (logEvent (FilterHas exBytes) (exState 0)))
             \<lparr>uploads := [(exZeros @ ''3.txt'', exBytes)]\<rparr>)))"
  unfolding uploadFile_eventLoop_closed [OF ex_decode(1) ex_fresh exState_fields(3) exClosed_fields]
  by (simp add: Let_def ex_digest ex_extname exState_fields putEntry_def exOpen_def exClosed_def
      filter_add_def logEvent_def)

text \<open>
  C6, where the code departs from it. \<^verbatim>\<open>_saveFileInfo\<close> awaits none of its four calls to
  Redis and is called before any \<^verbatim>\<open>redisClient.connect()\<close>.

  With the client open and the content already in the index (\<open>exStored\<close>), the upload of
  \<open>id-2\<close> returns its result while the four commands of its FileRecord are still in the
  queue of the client: the index has been checked and nothing has been persisted, and the
  identifier resolves only once the event loop has turned.

  With the client closed (\<open>exClosed\<close>), the four commands are rejected and the rejections
  are lost: the upload of new content as \<open>id-1\<close> writes the blob, adds it to the index,
  connects, saves the filter and returns \<open>id-1\<close>, and no FileRecord is ever written, so
  that the download of \<open>id-1\<close> fails with \<open>File not found\<close>.
\<close>

theorem uploadFile_record_unawaited:
  "(let (r, c', s') = uploadFile_eventLoop exEnv ''id-2'' (Some (''copy.txt'', exBytes)) exOpen exStored
    in r = Inr (JObject [(''fileId'', JString ''id-2''), (''fileName'', JString ''copy.txt'')])
     \<and> commandQueue c' =
         [CmdSet ''file:id-2:hash'' (exZeros @ ''3''), CmdExpire ''file:id-2:hash'' 2592000,
          CmdSet ''file:id-2:filename'' ''copy.txt'', CmdExpire ''file:id-2:filename'' 2592000]
     \<and> trace s' = trace exStored @ [FilterHas exBytes]
     \<and> redis_get s' ''file:id-2:hash'' = None
     \<and> redis_get (snd (eventLoopTurn exEnv c' s')) ''file:id-2:hash'' = Some (exZeros @ ''3''))
   \<and> (let (r, c', s') =
            uploadFile_eventLoop exEnv ''id-1'' (Some (''my%20notes.txt'', exBytes)) exClosed (exState 0)
      in r = Inr (JObject [(''fileId'', JString ''id-1''), (''fileName'', JString ''my notes.txt'')])
       \<and> c' = exOpen
       \<and> fs_readFile s' (exZeros @ ''3.txt'') = Some exBytes
       \<and> cbf_has exEnv (bloomFilter s') exBytes
       \<and> trace s' = [FilterHas exBytes, FsWriteFile (exZeros @ ''3.txt''), FilterAdd exBytes,
                      RedisSaveBloomFilter]
       \<and> redis_get s' ''file:id-1:hash'' = None
       \<and> redis_get s' ''file:id-1:filename'' = None
       \<and> download exEnv ''local'' ''id-1'' None None s' = (Inl (JsError ''Error'' ''File not found''), s'))"
proof -
  let ?s2 = "logEvent (FilterHas exBytes) exStored"
  let ?s1 = "saveBloomFilter (cbf_add exEnv (cbf_create exEnv) exBytes)
        (filter_add exEnv exBytes
          ((logEvent (FsWriteFile (exZeros @ ''3.txt'')) (logEvent (FilterHas exBytes) (exState 0)))
             \<lparr>uploads := [(exZeros @ ''3.txt'', exBytes)]\<rparr>))"
  have t2: "trace ?s2 = trace exStored @ [FilterHas exBytes]"
    by (simp add: logEvent_def)
  have before: "redis_get ?s2 ''file:id-2:hash'' = None"
    using exStored_fields(7) [of "''file:id-2:hash''"] by (simp add: redis_get_def logEvent_def)
  have afterwards: "redis_get (saveFileInfo exEnv ''id-2'' (exZeros @ ''3'') ''copy.txt'' ?s2)
      ''file:id-2:hash'' = Some (exZeros @ ''3'')"
    by (simp add: saveFileInfo_get hashKey_def)
  have f1: "uploads ?s1 = [(exZeros @ ''3.txt'', exBytes)]"
    "bloomFilter ?s1 = cbf_add exEnv (cbf_create exEnv) exBytes"
    "trace ?s1 = [FilterHas exBytes, FsWriteFile (exZeros @ ''3.txt''), FilterAdd exBytes,
                  RedisSaveBloomFilter]"
    "redis_get ?s1 k = redis_get (exState 0) k" for k
    by (simp_all add: saveBloomFilter_def filter_add_def logEvent_def exState_fields redis_get_def)
  have has: "cbf_has exEnv (bloomFilter ?s1) exBytes"
    using cbf_has_add [OF ex_inRange [of 0]] by (simp add: f1 exState_fields)
  have none: "redis_get ?s1 ''file:id-1:hash'' = None" "redis_get ?s1 ''file:id-1:filename'' = None"
    "redis_get ?s1 (hashKey ''id-1'') = None"
    by (simp_all add: f1 exState_fields hashKey_def)
  have blob: "\<forall>name\<in>set (fs_readdir ?s1). blobName name"
    by (simp add: fs_readdir_def f1) (simp add: blobName_def isHexDigit_def exZeros_def)
  have dl: "download exEnv ''local'' ''id-1'' None None ?s1 = (Inl (JsError ''Error'' ''File not found''), ?s1)"
    using none(3) blob by (rule download_unresolved)
  have blobfile: "fs_readFile ?s1 (exZeros @ ''3.txt'') = Some exBytes"
    by (simp add: fs_readFile_def f1)
  have first: "(let (r, c', s') = uploadFile_eventLoop exEnv ''id-2'' (Some (''copy.txt'', exBytes)) exOpen exStored
    in r = Inr (JObject [(''fileId'', JString ''id-2''), (''fileName'', JString ''copy.txt'')])
     \<and> commandQueue c' =
         [CmdSet ''file:id-2:hash'' (exZeros @ ''3''), CmdExpire ''file:id-2:hash'' 2592000,
          CmdSet ''file:id-2:filename'' ''copy.txt'', CmdExpire ''file:id-2:filename'' 2592000]
     \<and> trace s' = trace exStored @ [FilterHas exBytes]
     \<and> redis_get s' ''file:id-2:hash'' = None
     \<and> redis_get (snd (eventLoopTurn exEnv c' s')) ''file:id-2:hash'' = Some (exZeros @ ''3''))"
    unfolding exQueued Let_def prod.case exQueued_turn
    using t2 before afterwards by (simp add: hashKey_def filenameKey_def)
  have second: "(let (r, c', s') =
            uploadFile_eventLoop exEnv ''id-1'' (Some (''my%20notes.txt'', exBytes)) exClosed (exState 0)
      in r = Inr (JObject [(''fileId'', JString ''id-1''), (''fileName'', JString ''my notes.txt'')])
       \<and> c' = exOpen
       \<and> fs_readFile s' (exZeros @ ''3.txt'') = Some exBytes
       \<and> cbf_has exEnv (bloomFilter s') exBytes
       \<and> trace s' = [FilterHas exBytes, FsWriteFile (exZeros @ ''3.txt''), FilterAdd exBytes,
                      RedisSaveBloomFilter]
       \<and> redis_get s' ''file:id-1:hash'' = None
       \<and> redis_get s' ''file:id-1:filename'' = None
       \<and> download exEnv ''local'' ''id-1'' None None s' = (Inl (JsError ''Error'' ''File not found''), s'))"
    unfolding exLost Let_def prod.case
    by (intro conjI refl blobfile has f1(3) none(1) none(2) dl)
  from first second show ?thesis by (rule conjI)
qed

text \<open>
  C1, as the claim has it, fails: the object returned by a first upload and the one
  returned by a second upload of the same bytes, which the index reports as present, have
  no field \<open>alreadyExisted\<close>.
\<close>

theorem uploadFile_alreadyExisted_counterexample:
  "fst (uploadFile exEnv ''id-1'' (Some (''my%20notes.txt'', exBytes)) (exState 0)) =
     Inr (JObject [(''fileId'', JString ''id-1''), (''fileName'', JString ''my notes.txt'')])
   \<and> jsField (JObject [(''fileId'', JString ''id-1''), (''fileName'', JString ''my notes.txt'')])
        ''alreadyExisted'' = JUndefined
   \<and> cbf_has exEnv (bloomFilter exStored) exBytes
   \<and> fst (uploadFile exEnv ''id-2'' (Some (''copy.txt'', exBytes)) exStored) =
     Inr (JObject [(''fileId'', JString ''id-2''), (''fileName'', JString ''copy.txt'')])
   \<and> jsField (JObject [(''fileId'', JString ''id-2''), (''fileName'', JString ''copy.txt'')])
        ''alreadyExisted'' = JUndefined"
  by (simp add: exStored_eq exStored_has uploadFile_exists [OF ex_decode(2) exStored_has] jsField_def)

theorem uploadFile_result_witness:
  "fst (uploadFile exEnv ''id-1'' (Some (''my%20notes.txt'', exBytes)) (exState 0)) =
     Inr (JObject [(''fileId'', JString ''id-1''), (''fileName'', JString ''my notes.txt'')])
   \<and> decodeURIComponent exEnv ''my%20notes.txt'' = Some ''my notes.txt''
   \<and> jsField (JObject [(''fileId'', JString ''id-1''), (''fileName'', JString ''my notes.txt'')])
        ''alreadyExisted'' = JUndefined"
proof -
  have r: "fst (uploadFile exEnv ''id-1'' (Some (''my%20notes.txt'', exBytes)) (exState 0)) =
     Inr (JObject [(''fileId'', JString ''id-1''), (''fileName'', JString ''my notes.txt'')])"
    by (simp add: exStored_eq)
  show ?thesis
    using uploadFile_result [OF r] r by auto
qed



theorem download_not_found_witness:
  "fs_readdir exOrphan = []
   \<and> redis_get exOrphan (hashKey ''id-1'') = Some (exZeros @ ''3'')
   \<and> download exEnv ''local'' ''id-1'' None None exOrphan =
       (Inl (JsError ''Error'' ''File not found''), exOrphan)
   \<and> redis_get exThree (hashKey ''ghost'') = None
   \<and> list_all blobName (fs_readdir exThree)
   \<and> download exEnv ''staging-area'' ''ghost'' (Some ''user'') (Some ''42'') exThree =
       (Inl (JsError ''Error'' ''File not found''), exThree)"
proof -
  have o: "fs_readdir exOrphan = []" by (simp add: fs_readdir_def exOrphan_fields)
  have g: "redis_get exThree (hashKey ''ghost'') = None"
    by (simp add: exThree_fields hashKey_def)
  have h1: "(\<forall>file\<in>set (fs_readdir exOrphan). \<not> startsWith file (toStr (redis_get exOrphan (hashKey ''id-1''))))
      \<or> (redis_get exOrphan (hashKey ''id-1'') = None \<and> (\<forall>file\<in>set (fs_readdir exOrphan). blobName file))"
    by (simp add: o)
  have h2: "(\<forall>file\<in>set (fs_readdir exThree). \<not> startsWith file (toStr (redis_get exThree (hashKey ''ghost''))))
      \<or> (redis_get exThree (hashKey ''ghost'') = None \<and> (\<forall>file\<in>set (fs_readdir exThree). blobName file))"
    using g exThree_blobNames by (simp add: list_all_iff)
  show ?thesis
    using download_not_found [OF h1, of exEnv "''local''" None None]
      download_not_found [OF h2, of exEnv "''staging-area''" "Some ''user''" "Some ''42''"]
      o g exThree_blobNames
    by (simp add: exOrphan_fields hashKey_def)
qed

theorem download_dispatch_witness:
  "find (\<lambda>file. startsWith file (toStr (redis_get exThree (hashKey ''id-2'')))) (fs_readdir exThree)
     = Some (exZeros @ ''3.txt'')
   \<and> download exEnv ''local'' ''id-2'' None None exThree =
       (Inr (JObject [(''stream'', JStream exBytes), (''filename'', JString ''copy.txt'')]), exThree)
   \<and> download exEnv ''staging-area'' ''id-2'' (Some ''user'') None exThree =
       (Inl (JsError ''Error''
          ''Type and id query parameters are required for staging-area download.''), exThree)
   \<and> fst (download exEnv ''staging-area'' ''id-2'' (Some ''user'') (Some ''42'') exThree) =
       Inr (JObject [(''fileId'', JString ''id-2''), (''filename'', JString ''copy.txt''),
                     (''location'', JString (''https://clouddrop.s3.eu-west-1.amazonaws.com/user/42/''
                        @ exZeros @ ''3.txt''))])
   \<and> download exEnv ''ftp'' ''id-2'' None None exThree =
       (Inl (JsError ''Error'' ''Invalid download way.''), exThree)"
proof -
  have m: "find (\<lambda>file. startsWith file (toStr (redis_get exThree (hashKey ''id-2'')))) (fs_readdir exThree)
     = Some (exZeros @ ''3.txt'')"
    using exThree_find by (simp add: exThree_fields hashKey_def toStr_def)
  have c: "fs_readFile exThree (exZeros @ ''3.txt'') = Some exBytes"
    by (simp add: fs_readFile_def exThree_fields)
  have n: "redis_get exThree (filenameKey ''id-2'') = Some ''copy.txt''"
    by (simp add: exThree_fields filenameKey_def)
  have aws: "awsBucket exEnv = ''clouddrop''" "awsRegion exEnv = ''eu-west-1''"
    by (simp_all add: exEnv_def)
  show ?thesis
    using download_dispatch [OF m, of "''local''" exEnv None None]
      download_dispatch [OF m, of "''staging-area''" exEnv "Some ''user''" None]
      download_dispatch [OF m, of "''staging-area''" exEnv "Some ''user''" "Some ''42''"]
      download_dispatch [OF m, of "''ftp''" exEnv None None] m
    by (simp add: c n jsOfReply_def falsy_def toStr_def split_beta Let_def s3Location_def aws
        exThree_fields(5))
qed

text \<open>
  C4, as the claim has it, fails: the way \<open>google-cloud\<close> is neither \<open>local\<close> nor
  \<open>staging-area\<close> and throws nothing, and the way \<open>staging-area\<close> with a type and an id
  throws for the type \<open>team\<close> instead of reaching the archive.
\<close>

theorem download_dispatch_counterexample:
  "download exEnv ''google-cloud'' ''id-2'' None None exThree = (Inr JUndefined, exThree)
   \<and> download exEnv ''staging-area'' ''id-2'' (Some ''team'') (Some ''42'') exThree =
       (Inl (JsError ''Error'' ''[S3Service] Invalid type: team''), exThree)"
proof -
  have m: "find (\<lambda>file. startsWith file (toStr (redis_get exThree (hashKey ''id-2'')))) (fs_readdir exThree)
     = Some (exZeros @ ''3.txt'')"
    using exThree_find by (simp add: exThree_fields hashKey_def toStr_def)
  show ?thesis
    by (simp add: download_match [OF m] falsy_def toStr_def stagingAreaDownload_def
        s3_uploadFile_def generateS3Key_def Let_def)
qed


end
